theory Spec2Isabelle
  imports Main "HOL-Library.Word"
begin

section \<open>The RustChain wallet helper of BoTTube (rustchain\_wallet.js)\<close>

text \<open>
  The wallet helper stores a 32-byte Ed25519 seed in one localStorage slot, derives the
  address \<open>RTC + sha256(publicKey)[:40]\<close> and signs the canonical JSON text of a
  transfer. The development below embeds its functions one by one, together with the
  part of the JavaScript runtime they call (string coercion, \<open>trim\<close>,
  \<open>toLowerCase\<close>, \<open>parseInt\<close>, \<open>Number.prototype.toString\<close>,
  \<open>JSON.stringify\<close> on strings, \<open>TextEncoder\<close>).

  Conventions of the embedding:
  \<^item> A JavaScript string is the list of its UTF-16 code units; the model covers the code
    units below 256, one \<^typ>\<open>char\<close> each.
  \<^item> A \<open>Uint8Array\<close> is a list of 8-bit words.
  \<^item> A Number is kept in the decimal view that \<open>Number.prototype.toString\<close> prints:
    \<open>Finite neg m e\<close> is \<open>(-1)^neg * m * 10^e\<close>. Every double has such a view (its
    shortest round-tripping digits); which decimal a double has is binary floating point
    and stays outside, except for integers, where \<open>number_of_int\<close> computes it.
  \<^item> A thrown \<open>Error\<close> is the left summand of the result, named after its message.
  \<^item> \<open>nacl\<close> (tweetnacl) and \<open>crypto.subtle.digest\<close> are parameters, collected in
    the record \<open>provider\<close>; \<open>async\<close> functions are modelled by their settled result.
\<close>

subsection \<open>Runtime values\<close>

type_synonym byte = "8 word"

datatype number = NaN | Infinity bool | Finite bool nat int

datatype jsval = JUndefined | JNull | JBool bool | JNum number | JStr string

datatype error =
    HexLengthOdd      \<comment> \<open>\<open>Error("hex length must be even")\<close>\<close>
  | InvalidHex        \<comment> \<open>\<open>Error("invalid hex")\<close>\<close>
  | AmountNotFinite   \<comment> \<open>\<open>Error("amount not finite")\<close>\<close>
  | NaclNotLoaded     \<comment> \<open>\<open>Error("nacl not loaded")\<close>\<close>
  | SeedNot32Bytes    \<comment> \<open>\<open>Error("seed must be 32 bytes")\<close>\<close>
  | NoLocalWallet     \<comment> \<open>\<open>Error("no local wallet")\<close>\<close>
  | InvalidNonce      \<comment> \<open>\<open>Error("invalid nonce")\<close>\<close>

subsection \<open>Digits\<close>

text \<open>The digit characters of \<open>toString(radix)\<close>: \<open>0..9\<close>, then \<open>a..z\<close>.\<close>

definition digit_char :: "nat \<Rightarrow> char" where
  "digit_char d = (if d < 10 then char_of (48 + d) else char_of (87 + d))"

text \<open>The value of a character as a digit of \<open>parseInt\<close>: letters in either case.\<close>

definition digit_val :: "char \<Rightarrow> nat option" where
  "digit_val c =
     (let n = (of_char c :: nat) in
      if 48 \<le> n \<and> n \<le> 57 then Some (n - 48)
      else if 97 \<le> n \<and> n \<le> 122 then Some (n - 87)
      else if 65 \<le> n \<and> n \<le> 90 then Some (n - 55)
      else None)"

definition is_digit :: "nat \<Rightarrow> char \<Rightarrow> bool" where
  "is_digit R c = (case digit_val c of None \<Rightarrow> False | Some d \<Rightarrow> d < R)"

text \<open>Decimal digits of a natural number, most significant first.\<close>

fun show_nat :: "nat \<Rightarrow> string" where
  "show_nat n = (if n < 10 then [digit_char n] else show_nat (n div 10) @ [digit_char (n mod 10)])"

declare show_nat.simps [simp del]

text \<open>The value of a digit string in radix \<open>R\<close>, read left to right.\<close>

fun digits_val :: "nat \<Rightarrow> nat \<Rightarrow> string \<Rightarrow> nat" where
  "digits_val R acc [] = acc"
| "digits_val R acc (c # cs) = digits_val R (acc * R + (case digit_val c of None \<Rightarrow> 0 | Some d \<Rightarrow> d)) cs"

subsection \<open>Numbers: the Number value of an integer, and \<open>Number.prototype.toString\<close>\<close>

fun bitlen :: "nat \<Rightarrow> nat" where
  "bitlen n = (if n = 0 then 0 else Suc (bitlen (n div 2)))"

declare bitlen.simps [simp del]

text \<open>
  The double nearest to a natural number, ties to the even significand; \<open>None\<close> when the
  result is \<open>Infinity\<close>. Below \<open>2^53\<close> every integer is a double.
\<close>

definition round_double :: "nat \<Rightarrow> nat option" where
  "round_double v =
     (if v < 2 ^ 53 then Some v
      else
        let u = 2 ^ (bitlen v - 53);
            q = v div u;
            r = v mod u;
            m = (if 2 * r < u then q else if u < 2 * r then q + 1
                 else if even q then q else q + 1);
            d = m * u
        in if 2 ^ 1024 \<le> d then None else Some d)"

text \<open>
  Whether the integer \<open>c\<close> rounds to the double \<open>D \<ge> 2^53\<close>: it lies between the
  midpoints to the neighbouring doubles, the midpoints included when the significand of
  \<open>D\<close> is even. Everything is scaled by 4, the lower gap being a quarter of the unit at
  a power of two.
\<close>

definition rounds_to :: "nat \<Rightarrow> nat \<Rightarrow> bool" where
  "rounds_to D c =
     (let u = 2 ^ (bitlen D - 53);
          lo4 = (if D = 2 ^ (bitlen D - 1) then 4 * D - u else 4 * D - 2 * u);
          hi4 = 4 * D + 2 * u
      in if even (D div u) then lo4 \<le> 4 * c \<and> 4 * c \<le> hi4
         else lo4 < 4 * c \<and> 4 * c < hi4)"

text \<open>
  The digits \<open>Number.prototype.toString\<close> prints for a double \<open>D \<ge> 2^53\<close>: the
  integer with the fewest significant digits that rounds to \<open>D\<close>, the nearest one when
  there are two with that many digits.
\<close>

definition shortest_candidates :: "nat \<Rightarrow> nat \<Rightarrow> nat list" where
  "shortest_candidates D k =
     (let p = 10 ^ (length (show_nat D) - k);
          c1 = (D div p) * p;
          c2 = c1 + p
      in filter (rounds_to D) (if D - c1 \<le> c2 - D then [c1, c2] else [c2, c1]))"

definition shortest_int :: "nat \<Rightarrow> nat" where
  "shortest_int D =
     (case concat (map (shortest_candidates D) [1 ..< Suc (length (show_nat D))]) of
        [] \<Rightarrow> D
      | c # _ \<Rightarrow> c)"

text \<open>The Number value of the integer \<open>(-1)^neg * v\<close>, in the decimal view.\<close>

definition number_of_int :: "bool \<Rightarrow> nat \<Rightarrow> number" where
  "number_of_int neg v =
     (case round_double v of
        None \<Rightarrow> Infinity neg
      | Some D \<Rightarrow> Finite neg (if D < 2 ^ 53 then D else shortest_int D) 0)"

text \<open>Trailing zeros of the digits move into the exponent: \<open>k\<close> is as small as possible.\<close>

fun strip_zeros :: "nat \<Rightarrow> int \<Rightarrow> nat \<times> int" where
  "strip_zeros m e =
     (if m \<noteq> 0 \<and> m mod 10 = 0 then strip_zeros (m div 10) (e + 1) else (m, e))"

declare strip_zeros.simps [simp del]

text \<open>
  \<open>Number::toString(x)\<close> in radix 10 for \<open>x > 0\<close>, by the cases of ECMA-262: with
  \<open>k\<close> digits \<open>s\<close> and \<open>x = s * 10^(n-k)\<close>,
  \<^item> \<open>k \<le> n \<le> 21\<close>: the digits, then \<open>n - k\<close> zeros;
  \<^item> \<open>0 < n \<le> 21\<close>: the first \<open>n\<close> digits, a point, the other digits;
  \<^item> \<open>-6 < n \<le> 0\<close>: \<open>0.\<close>, then \<open>-n\<close> zeros, then the digits;
  \<^item> otherwise exponent notation, the exponent being \<open>n - 1\<close> with its sign.
\<close>

definition toString_pos :: "nat \<Rightarrow> int \<Rightarrow> string" where
  "toString_pos m e =
     (let (s, e') = strip_zeros m e;
          ds = show_nat s;
          k = int (length ds);
          n = k + e'
      in if k \<le> n \<and> n \<le> 21 then ds @ replicate (nat (n - k)) (CHR ''0'')
         else if 0 < n \<and> n \<le> 21 then take (nat n) ds @ ''.'' @ drop (nat n) ds
         else if -6 < n \<and> n \<le> 0 then ''0.'' @ replicate (nat (- n)) (CHR ''0'') @ ds
         else
           let ex = (if n - 1 < 0 then ''-'' else ''+'') @ show_nat (nat \<bar>n - 1\<bar>)
           in if k = 1 then ds @ ''e'' @ ex
              else take 1 ds @ ''.'' @ drop 1 ds @ ''e'' @ ex)"

fun Number_toString :: "number \<Rightarrow> string" where
  "Number_toString NaN = ''NaN''"
| "Number_toString (Infinity neg) = (if neg then ''-Infinity'' else ''Infinity'')"
| "Number_toString (Finite neg m e) =
     (if m = 0 then ''0'' else (if neg then ''-'' else '''') @ toString_pos m e)"

definition Number_isFinite :: "number \<Rightarrow> bool" where
  "Number_isFinite x = (case x of Finite _ _ _ \<Rightarrow> True | _ \<Rightarrow> False)"

subsection \<open>Coercions and string operations\<close>

text \<open>
  Falsy values are \<open>undefined\<close>, \<open>null\<close>, \<open>false\<close>, \<open>+0\<close>, \<open>-0\<close>, \<open>NaN\<close>
  and the empty string.
\<close>

fun truthy :: "jsval \<Rightarrow> bool" where
  "truthy JUndefined = False"
| "truthy JNull = False"
| "truthy (JBool b) = b"
| "truthy (JNum NaN) = False"
| "truthy (JNum (Infinity _)) = True"
| "truthy (JNum (Finite _ m _)) = (m \<noteq> 0)"
| "truthy (JStr s) = (s \<noteq> [])"

text \<open>\<open>String(v)\<close>.\<close>

fun String_of :: "jsval \<Rightarrow> string" where
  "String_of JUndefined = ''undefined''"
| "String_of JNull = ''null''"
| "String_of (JBool b) = (if b then ''true'' else ''false'')"
| "String_of (JNum x) = Number_toString x"
| "String_of (JStr s) = s"

text \<open>\<open>String(v || "")\<close>, the coercion the wallet applies to its text arguments.\<close>

definition or_empty :: "jsval \<Rightarrow> string" where
  "or_empty v = String_of (if truthy v then v else JStr [])"

text \<open>
  White space and line terminators among the code units below 256: TAB, LF, VT, FF, CR,
  SP and NBSP. \<open>trim\<close> removes them at both ends; \<open>parseInt\<close> skips them in front.
\<close>

definition is_ws :: "char \<Rightarrow> bool" where
  "is_ws c = ((of_char c :: nat) \<in> {9, 10, 11, 12, 13, 32, 160})"

definition trim :: "string \<Rightarrow> string" where
  "trim s = rev (dropWhile is_ws (rev (dropWhile is_ws s)))"

text \<open>
  \<open>toLowerCase\<close> on the code units below 256: \<open>A..Z\<close> and the capital letters
  \<open>U+00C0..U+00DE\<close> (not the multiplication sign \<open>U+00D7\<close>) move up by 32.
\<close>

definition lower_char :: "char \<Rightarrow> char" where
  "lower_char c =
     (let n = (of_char c :: nat) in
      if (65 \<le> n \<and> n \<le> 90) \<or> (192 \<le> n \<and> n \<le> 222 \<and> n \<noteq> 215)
      then char_of (n + 32) else c)"

definition toLowerCase :: "string \<Rightarrow> string" where
  "toLowerCase s = map lower_char s"

definition startsWith :: "string \<Rightarrow> string \<Rightarrow> bool" where
  "startsWith s p = (take (length p) s = p)"

text \<open>
  \<open>parseInt(s, R)\<close> for \<open>R\<close> 10 or 16, up to the final conversion to a Number: the
  sign and the magnitude of the integer read, \<open>None\<close> for \<open>NaN\<close>. Leading white space
  is skipped, one sign is taken, with radix 16 a prefix \<open>0x\<close> or \<open>0X\<close> is dropped, and
  the longest prefix of radix-\<open>R\<close> digits is the number; what follows it is ignored.
  The digits are read exactly (ECMA-262 lets an implementation round a decimal number
  after its 20th significant digit).
\<close>

definition parseInt_math :: "string \<Rightarrow> nat \<Rightarrow> (bool \<times> nat) option" where
  "parseInt_math s R =
     (let s1 = dropWhile is_ws s;
          neg = (s1 \<noteq> [] \<and> hd s1 = CHR ''-'');
          s2 = (if s1 \<noteq> [] \<and> (hd s1 = CHR ''+'' \<or> hd s1 = CHR ''-'') then tl s1 else s1);
          s3 = (if R = 16 \<and> (startsWith s2 ''0x'' \<or> startsWith s2 ''0X'') then drop 2 s2 else s2);
          z = takeWhile (is_digit R) s3
      in if z = [] then None else Some (neg, digits_val R 0 z))"

definition parseInt :: "string \<Rightarrow> nat \<Rightarrow> number" where
  "parseInt s R =
     (case parseInt_math s R of
        None \<Rightarrow> NaN
      | Some (neg, v) \<Rightarrow> number_of_int neg v)"

text \<open>
  \<open>JSON.stringify\<close> of a string: the quotation mark and the backslash are escaped, the
  control characters below \<open>U+0020\<close> become \<open>\b \t \n \f \r\<close> or \<open>\u00xx\<close>, every
  other code unit stands for itself, and the whole is put in quotation marks.
\<close>

definition dquote :: char where
  "dquote = CHR 0x22"

definition backslash :: char where
  "backslash = CHR 0x5C"

definition json_escape :: "char \<Rightarrow> string" where
  "json_escape c =
     (let n = (of_char c :: nat) in
      if n = 8 then [backslash, CHR ''b'']
      else if n = 9 then [backslash, CHR ''t'']
      else if n = 10 then [backslash, CHR ''n'']
      else if n = 12 then [backslash, CHR ''f'']
      else if n = 13 then [backslash, CHR ''r'']
      else if c = dquote then [backslash, dquote]
      else if c = backslash then [backslash, backslash]
      else if n < 32 then [backslash, CHR ''u'', CHR ''0'', CHR ''0'',
                           digit_char (n div 16), digit_char (n mod 16)]
      else [c])"

definition JSON_stringify :: "string \<Rightarrow> string" where
  "JSON_stringify s = dquote # concat (map json_escape s) @ [dquote]"

text \<open>\<open>new TextEncoder().encode\<close>: UTF-8, two bytes for a code unit from 128 on.\<close>

definition utf8_char :: "char \<Rightarrow> byte list" where
  "utf8_char c =
     (let n = (of_char c :: nat) in
      if n < 128 then [of_nat n] else [of_nat (192 + n div 64), of_nat (128 + n mod 64)])"

definition TextEncoder_encode :: "string \<Rightarrow> byte list" where
  "TextEncoder_encode s = concat (map utf8_char s)"

subsection \<open>The wallet helper\<close>

text \<open>
  \<open>_hexToBytes\<close>. The loop reads the string two characters at a time; each pair goes
  through \<open>parseInt(pair, 16)\<close>, is refused when that is not finite, and is stored into
  the \<open>Uint8Array\<close>, which keeps the value modulo 256. The length is even when the loop
  starts, so the last equation only ever sees the empty string.
\<close>

fun hex_loop :: "string \<Rightarrow> error + byte list" where
  "hex_loop (a # b # rest) =
     (case parseInt_math [a, b] 16 of
        None \<Rightarrow> Inl InvalidHex
      | Some (neg, v) \<Rightarrow>
          (case hex_loop rest of
             Inl e \<Rightarrow> Inl e
           | Inr out \<Rightarrow> Inr ((if neg then - of_nat v else of_nat v) # out)))"
| "hex_loop _ = Inr []"

definition hexToBytes :: "jsval \<Rightarrow> error + byte list" where
  "hexToBytes hex =
     (let h0 = toLowerCase (trim (or_empty hex));
          h = (if startsWith h0 ''0x'' then drop 2 h0 else h0)
      in if length h mod 2 \<noteq> 0 then Inl HexLengthOdd else hex_loop h)"

text \<open>\<open>_bytesToHex\<close>: \<open>b[i].toString(16).padStart(2, "0")\<close> for each byte.\<close>

definition byte_hex :: "byte \<Rightarrow> string" where
  "byte_hex b = [digit_char (unat b div 16), digit_char (unat b mod 16)]"

definition bytesToHex :: "byte list \<Rightarrow> string" where
  "bytesToHex bytes = concat (map byte_hex bytes)"

text \<open>
  \<open>_pyFloatRepr\<close>. The amount is a Number here, on which \<open>Number(n)\<close> is the identity.
\<close>

definition pyFloatRepr :: "number \<Rightarrow> error + string" where
  "pyFloatRepr x =
     (if \<not> Number_isFinite x then Inl AmountNotFinite
      else
        let s = Number_toString x
        in if CHR ''.'' \<notin> set s \<and> CHR ''e'' \<notin> set s \<and> CHR ''E'' \<notin> set s
           then Inr (s @ ''.0'') else Inr s)"

text \<open>\<open>_canonicalTxJson\<close>: the parts in the order of the source, joined.\<close>

definition canonicalTxJson ::
  "jsval \<Rightarrow> jsval \<Rightarrow> number \<Rightarrow> jsval \<Rightarrow> jsval \<Rightarrow> error + string" where
  "canonicalTxJson fromAddr toAddr amountRtc memo nonceStr =
     (case pyFloatRepr amountRtc of
        Inl e \<Rightarrow> Inl e
      | Inr amount \<Rightarrow>
          Inr (concat
            [''{'',
             [dquote] @ ''amount'' @ [dquote] @ '':'', amount, '','',
             [dquote] @ ''from'' @ [dquote] @ '':'', JSON_stringify (or_empty fromAddr), '','',
             [dquote] @ ''memo'' @ [dquote] @ '':'', JSON_stringify (or_empty memo), '','',
             [dquote] @ ''nonce'' @ [dquote] @ '':'', JSON_stringify (or_empty nonceStr), '','',
             [dquote] @ ''to'' @ [dquote] @ '':'', JSON_stringify (or_empty toAddr),
             ''}'']))"

text \<open>
  The collaborators: whether \<open>nacl.sign.keyPair.fromSeed\<close> is there, the key pair of a
  seed (public key, secret key), the detached signature of a message under a secret key,
  and SHA-256.
\<close>

record provider =
  nacl_loaded :: bool
  fromSeed :: "byte list \<Rightarrow> byte list \<times> byte list"
  sign_detached :: "byte list \<Rightarrow> byte list \<Rightarrow> byte list"
  sha256 :: "byte list \<Rightarrow> byte list"

record wallet =
  seedHex :: string
  publicKeyHex :: string
  address :: string
  secretKey :: "byte list"

definition sha256Hex :: "provider \<Rightarrow> byte list \<Rightarrow> string" where
  "sha256Hex env bytes = bytesToHex (sha256 env bytes)"

text \<open>The address of a public key, as \<open>_walletFromSeedHex\<close> computes it.\<close>

definition derive_address :: "provider \<Rightarrow> byte list \<Rightarrow> string" where
  "derive_address env publicKey = ''RTC'' @ take 40 (sha256Hex env publicKey)"

definition walletFromSeedHex :: "provider \<Rightarrow> jsval \<Rightarrow> error + wallet" where
  "walletFromSeedHex env seedHex' =
     (if \<not> nacl_loaded env then Inl NaclNotLoaded
      else
        case hexToBytes seedHex' of
          Inl e \<Rightarrow> Inl e
        | Inr seed \<Rightarrow>
            if length seed \<noteq> 32 then Inl SeedNot32Bytes
            else
              let kp = fromSeed env seed
              in Inr \<lparr> seedHex = bytesToHex seed,
                       publicKeyHex = bytesToHex (fst kp),
                       address = derive_address env (fst kp),
                       secretKey = snd kp \<rparr>)"

text \<open>
  The storage port: the localStorage slot \<open>rc_wallet_seed_hex\<close>, \<open>None\<close> when the key
  is absent (\<open>getItem\<close> then returns \<open>null\<close>).
\<close>

type_synonym storage = "string option"

definition getSeedHex :: "storage \<Rightarrow> string" where
  "getSeedHex st = trim (or_empty (case st of None \<Rightarrow> JNull | Some s \<Rightarrow> JStr s))"

text \<open>\<open>getWallet\<close>: \<open>Inr None\<close> is the returned \<open>null\<close>.\<close>

definition getWallet :: "provider \<Rightarrow> storage \<Rightarrow> error + wallet option" where
  "getWallet env st =
     (let seedHex' = getSeedHex st
      in if seedHex' = [] then Inr None
         else case walletFromSeedHex env (JStr seedHex') of
                Inl e \<Rightarrow> Inl e
              | Inr w \<Rightarrow> Inr (Some w))"

text \<open>
  \<open>generateWallet\<close>: \<open>rnd i\<close> is the byte \<open>crypto.getRandomValues\<close> puts at index
  \<open>i\<close> of the 32-byte array. The result is the storage after the call and what the call
  returned or threw.
\<close>

definition generateWallet ::
  "provider \<Rightarrow> (nat \<Rightarrow> byte) \<Rightarrow> storage \<Rightarrow> storage \<times> (error + wallet)" where
  "generateWallet env rnd st =
     (let seed = map rnd [0 ..< 32];
          seedHex' = bytesToHex seed
      in (Some seedHex', walletFromSeedHex env (JStr seedHex')))"

definition importSeed :: "provider \<Rightarrow> storage \<Rightarrow> jsval \<Rightarrow> storage \<times> (error + wallet)" where
  "importSeed env st seedHex' =
     (case hexToBytes seedHex' of
        Inl e \<Rightarrow> (st, Inl e)
      | Inr seed \<Rightarrow>
          if length seed \<noteq> 32 then (st, Inl SeedNot32Bytes)
          else
            let normalized = bytesToHex seed
            in (Some normalized, walletFromSeedHex env (JStr normalized)))"

definition clearWallet :: "storage \<Rightarrow> storage" where
  "clearWallet st = None"

record payload =
  from_address :: string
  public_key :: string
  signature :: string
  nonce :: number
  memo :: string
  canonical_message :: string

text \<open>
  \<open>signTransfer\<close> reads the storage and does not write it. A primed name is the
  source's variable of that name, where a record field has taken the name.
\<close>

definition signTransfer ::
  "provider \<Rightarrow> storage \<Rightarrow> jsval \<Rightarrow> number \<Rightarrow> jsval \<Rightarrow> jsval \<Rightarrow> error + payload" where
  "signTransfer env st toAddr amountRtc memo' nonceInt =
     (case getWallet env st of
        Inl e \<Rightarrow> Inl e
      | Inr None \<Rightarrow> Inl NoLocalWallet
      | Inr (Some w) \<Rightarrow>
          let nonceStr = Number_toString (parseInt (String_of nonceInt) 10)
          in if nonceStr = [] \<or> nonceStr = ''NaN'' then Inl InvalidNonce
             else
               case canonicalTxJson (JStr (address w)) toAddr amountRtc memo' (JStr nonceStr) of
                 Inl e \<Rightarrow> Inl e
               | Inr msg \<Rightarrow>
                   let msgBytes = TextEncoder_encode msg;
                       sigBytes = sign_detached env msgBytes (secretKey w)
                   in Inr \<lparr> from_address = address w,
                            public_key = publicKeyHex w,
                            signature = bytesToHex sigBytes,
                            nonce = parseInt nonceStr 10,
                            memo = or_empty memo',
                            canonical_message = msg \<rparr>)"

subsection \<open>Vocabulary of the properties\<close>

text \<open>A lowercase hexadecimal digit: \<open>0..9\<close> or \<open>a..f\<close>.\<close>

definition lower_hex :: "char \<Rightarrow> bool" where
  "lower_hex c =
     (let n = (of_char c :: nat) in (48 \<le> n \<and> n \<le> 57) \<or> (97 \<le> n \<and> n \<le> 102))"

text \<open>
  The format of the seed at the storage port: 64 lowercase hexadecimal digits that
  decode to 32 bytes.
\<close>

definition seed_format :: "string \<Rightarrow> bool" where
  "seed_format h =
     (length h = 64 \<and> list_all lower_hex h \<and>
      (case hexToBytes (JStr h) of Inl _ \<Rightarrow> False | Inr bs \<Rightarrow> length bs = 32))"

text \<open>The calls that write the seed, and a sequence of them run from a storage.\<close>

datatype wallet_call = Generate "nat \<Rightarrow> byte" | Import jsval

fun run_call :: "provider \<Rightarrow> storage \<Rightarrow> wallet_call \<Rightarrow> storage" where
  "run_call env st (Generate rnd) = fst (generateWallet env rnd st)"
| "run_call env st (Import v) = fst (importSeed env st v)"

definition run_calls :: "provider \<Rightarrow> storage \<Rightarrow> wallet_call list \<Rightarrow> storage" where
  "run_calls env st calls = foldl (run_call env) st calls"

text \<open>
  A stand-in for the collaborators, to run the wallet on concrete inputs: the public key
  is the seed with every byte incremented, the secret key is seed and public key in a
  row (64 bytes, as in tweetnacl), the signature is 64 zero bytes and the digest is the
  first 32 bytes of the zero-padded input. None of the properties below depends on it;
  it only instantiates them.
\<close>

definition demo_provider :: provider where
  "demo_provider =
     \<lparr> nacl_loaded = True,
       fromSeed = (\<lambda>seed. (map (\<lambda>b. b + 1) seed, seed @ map (\<lambda>b. b + 1) seed)),
       sign_detached = (\<lambda>msg sk. replicate 64 0),
       sha256 = (\<lambda>bytes. take 32 (bytes @ replicate 32 0)) \<rparr>"

definition zero_seed_hex :: string where
  "zero_seed_hex = concat (replicate 32 ''00'')"

text \<open>The wallet of the all-zero seed under the stand-in.\<close>

definition demo_wallet :: wallet where
  "demo_wallet =
     \<lparr> seedHex = zero_seed_hex,
       publicKeyHex = concat (replicate 32 ''01''),
       address = ''RTC'' @ concat (replicate 20 ''01''),
       secretKey = replicate 32 0 @ replicate 32 1 \<rparr>"


text \<open>A decimal digit, and a character that occurs in a printed Number.\<close>

definition dec_digit :: "char \<Rightarrow> bool" where
  "dec_digit c = (let n = (of_char c :: nat) in 48 \<le> n \<and> n \<le> 57)"

definition number_char :: "char \<Rightarrow> bool" where
  "number_char c = (dec_digit c \<or> c = CHR ''.'' \<or> c = CHR ''e'' \<or> c = CHR ''+'' \<or> c = CHR ''-'')"

text \<open>The minus sign of a negative number.\<close>

definition sign_str :: "bool \<Rightarrow> string" where
  "sign_str neg = (if neg then ''-'' else '''')"

text \<open>
  The reading of the spec for an integral amount: the decimal integer, then \<open>.0\<close>.
\<close>

definition spec_integral_repr :: "bool \<Rightarrow> nat \<Rightarrow> string" where
  "spec_integral_repr neg v = sign_str (neg \<and> v \<noteq> 0) @ show_nat v @ ''.0''"

text \<open>
  The reading of the spec for the canonical message: a JSON-like object is a brace, the
  members \<open>"key":value\<close> with a comma between them and nothing else, and a brace.
  The five members of a transfer are listed with their keys; \<open>str_less\<close> is the
  strict lexicographic order on code units.
\<close>

fun join_with :: "string \<Rightarrow> string list \<Rightarrow> string" where
  "join_with sep [] = []"
| "join_with sep [x] = x"
| "join_with sep (x # y # ys) = x @ sep @ join_with sep (y # ys)"

definition json_member :: "string \<times> string \<Rightarrow> string" where
  "json_member kv = [dquote] @ fst kv @ [dquote] @ '':'' @ snd kv"

definition json_object :: "(string \<times> string) list \<Rightarrow> string" where
  "json_object members = ''{'' @ join_with '','' (map json_member members) @ ''}''"

fun str_less :: "string \<Rightarrow> string \<Rightarrow> bool" where
  "str_less [] [] = False"
| "str_less [] (y # ys) = True"
| "str_less (x # xs) [] = False"
| "str_less (x # xs) (y # ys) =
     ((of_char x :: nat) < of_char y \<or> (x = y \<and> str_less xs ys))"

definition canonical_fields ::
  "string \<Rightarrow> string \<Rightarrow> string \<Rightarrow> string \<Rightarrow> string \<Rightarrow> (string \<times> string) list" where
  "canonical_fields amount from_s memo_s nonce_s to_s =
     [(''amount'', amount),
      (''from'', JSON_stringify from_s),
      (''memo'', JSON_stringify memo_s),
      (''nonce'', JSON_stringify nonce_s),
      (''to'', JSON_stringify to_s)]"

definition canonical_keys :: "string list" where
  "canonical_keys = [''amount'', ''from'', ''memo'', ''nonce'', ''to'']"

text \<open>
  A reader of JSON string literals, to say what a quoted string stands for: it undoes
  the two-character escapes and \<open>\u00xx\<close>, and refuses an unescaped quotation mark or
  control character. \<open>json_unquote\<close> takes the quotation marks off first.
\<close>

definition unescape_char :: "char \<Rightarrow> char option" where
  "unescape_char e =
     (if e = CHR ''b'' then Some (char_of (8::nat))
      else if e = CHR ''t'' then Some (char_of (9::nat))
      else if e = CHR ''n'' then Some (char_of (10::nat))
      else if e = CHR ''f'' then Some (char_of (12::nat))
      else if e = CHR ''r'' then Some (char_of (13::nat))
      else if e = dquote then Some dquote
      else if e = backslash then Some backslash
      else if e = CHR ''/'' then Some (CHR ''/'')
      else None)"

datatype json_state = Plain | Escape | Hex nat nat

fun json_unescape :: "json_state \<Rightarrow> string \<Rightarrow> string option" where
  "json_unescape Plain [] = Some []"
| "json_unescape Escape [] = None"
| "json_unescape (Hex k acc) [] = None"
| "json_unescape Plain (c # cs) =
     (if c = backslash then json_unescape Escape cs
      else if c = dquote \<or> (of_char c :: nat) < 32 then None
      else map_option ((#) c) (json_unescape Plain cs))"
| "json_unescape Escape (e # cs) =
     (if e = CHR ''u'' then json_unescape (Hex 0 0) cs
      else case unescape_char e of
             None \<Rightarrow> None
           | Some t \<Rightarrow> map_option ((#) t) (json_unescape Plain cs))"
| "json_unescape (Hex k acc) (h # cs) =
     (if is_digit 16 h
      then (let v = acc * 16 + (case digit_val h of None \<Rightarrow> 0 | Some d \<Rightarrow> d)
            in if k < 3 then json_unescape (Hex (Suc k) v) cs
               else if v < 256 then map_option ((#) (char_of v)) (json_unescape Plain cs)
               else None)
      else None)"

definition json_unquote :: "string \<Rightarrow> string option" where
  "json_unquote s =
     (case s of
        [] \<Rightarrow> None
      | q # rest \<Rightarrow>
          if q = dquote \<and> rest \<noteq> [] \<and> last rest = dquote
          then json_unescape Plain (butlast rest)
          else None)"

text \<open>
  The payload of a transfer of 2.5 to \<open>RTCabc\<close> signed by the wallet of the all-zero
  seed under the stand-in, for a memo, a nonce and the nonce's string.
\<close>

definition demo_payload :: "string \<Rightarrow> number \<Rightarrow> string \<Rightarrow> payload" where
  "demo_payload memo_s nonce_n nonce_s =
     \<lparr> from_address = address demo_wallet,
       public_key = publicKeyHex demo_wallet,
       signature = bytesToHex (replicate 64 0),
       nonce = nonce_n,
       memo = memo_s,
       canonical_message =
         json_object (canonical_fields ''2.5'' (address demo_wallet) memo_s nonce_s ''RTCabc'') \<rparr>"

text \<open>A seed string whose first pair has a character that is no hexadecimal digit.\<close>

definition malformed_seed_hex :: string where
  "malformed_seed_hex = ''1g'' @ concat (replicate 31 ''00'')"

section \<open>Properties\<close>

subsection \<open>Hexadecimal encoding and decoding\<close>

lemma lower_hex_digit_char: "d < 16 \<Longrightarrow> lower_hex (digit_char d)"
  by (auto simp: digit_char_def lower_hex_def)

lemma digit_val_digit_char: "d < 36 \<Longrightarrow> digit_val (digit_char d) = Some d"
  by (auto simp: digit_val_def digit_char_def Let_def)

lemma is_digit_digit_char: "d < R \<Longrightarrow> R \<le> 36 \<Longrightarrow> is_digit R (digit_char d)"
  by (simp add: is_digit_def digit_val_digit_char)

lemma lower_hex_not_ws: "lower_hex c \<Longrightarrow> \<not> is_ws c"
  by (auto simp: is_ws_def lower_hex_def Let_def)

lemma lower_hex_lower_char: "lower_hex c \<Longrightarrow> lower_char c = c"
  by (auto simp: lower_char_def lower_hex_def Let_def)

lemma lower_hex_not_special:
  "lower_hex c \<Longrightarrow> c \<noteq> CHR ''+'' \<and> c \<noteq> CHR ''-'' \<and> c \<noteq> CHR ''x'' \<and> c \<noteq> CHR ''X''"
  by (auto simp: lower_hex_def Let_def)

lemma byte_nibbles: "unat (b::byte) div 16 < 16 \<and> unat b mod 16 < 16"
proof -
  have "unat b < 256" using unsigned_less [of b] by simp
  then show ?thesis by simp
qed

lemma length_byte_hex [simp]: "length (byte_hex b) = 2"
  by (simp add: byte_hex_def)

lemma bytesToHex_Nil [simp]: "bytesToHex [] = []"
  by (simp add: bytesToHex_def)

lemma bytesToHex_Cons: "bytesToHex (b # bs) = byte_hex b @ bytesToHex bs"
  by (simp add: bytesToHex_def)

lemma length_bytesToHex [simp]: "length (bytesToHex bs) = 2 * length bs"
  by (induction bs) (simp_all add: bytesToHex_Cons)

lemma lower_hex_byte_hex: "list_all lower_hex (byte_hex b)"
  using byte_nibbles [of b] by (simp add: byte_hex_def lower_hex_digit_char)

lemma lower_hex_bytesToHex: "list_all lower_hex (bytesToHex bs)"
  by (induction bs) (simp_all add: bytesToHex_Cons lower_hex_byte_hex)

text \<open>A pair of hexadecimal digits is read back by \<open>parseInt(pair, 16)\<close>.\<close>

lemma parse_pair:
  assumes "a < 16" "b < 16"
  shows "parseInt_math [digit_char a, digit_char b] 16 = Some (False, a * 16 + b)"
proof -
  have A: "lower_hex (digit_char a)" and B: "lower_hex (digit_char b)"
    using assms lower_hex_digit_char by blast+
  have nws: "\<not> is_ws (digit_char a)" using A lower_hex_not_ws by blast
  have ns: "digit_char a \<noteq> CHR ''+''" "digit_char a \<noteq> CHR ''-''"
    "digit_char b \<noteq> CHR ''x''" "digit_char b \<noteq> CHR ''X''"
    using A B lower_hex_not_special by blast+
  have da: "is_digit 16 (digit_char a)" "is_digit 16 (digit_char b)"
    using assms by (simp_all add: is_digit_digit_char)
  show ?thesis
    using nws ns da assms
    by (simp add: parseInt_math_def startsWith_def Let_def digit_val_digit_char)
qed

lemma hex_loop_byte_hex:
  "hex_loop (byte_hex b @ rest) =
     (case hex_loop rest of Inl e \<Rightarrow> Inl e | Inr out \<Rightarrow> Inr (b # out))"
proof -
  have lt: "unat b div 16 < 16" "unat b mod 16 < 16" using byte_nibbles [of b] by simp_all
  have "unat b div 16 * 16 + unat b mod 16 = unat b" by simp
  then show ?thesis
    using parse_pair [OF lt] by (simp add: byte_hex_def split: sum.splits)
qed

lemma hex_loop_bytesToHex: "hex_loop (bytesToHex bs) = Inr bs"
  by (induction bs) (simp_all add: bytesToHex_Cons hex_loop_byte_hex)

lemma dropWhile_hd: "xs = [] \<or> \<not> P (hd xs) \<Longrightarrow> dropWhile P xs = xs"
  by (cases xs) auto

lemma trim_id: "s = [] \<or> (\<not> is_ws (hd s) \<and> \<not> is_ws (last s)) \<Longrightarrow> trim s = s"
  by (auto simp: trim_def dropWhile_hd hd_rev)

lemma or_empty_JStr [simp]: "or_empty (JStr s) = s"
  by (simp add: or_empty_def)

lemma trim_lower_hex: "list_all lower_hex s \<Longrightarrow> trim s = s"
proof (rule trim_id)
  assume a: "list_all lower_hex s"
  show "s = [] \<or> (\<not> is_ws (hd s) \<and> \<not> is_ws (last s))"
  proof (cases "s = []")
    case False
    then have "hd s \<in> set s" "last s \<in> set s" by simp_all
    with a have "lower_hex (hd s)" "lower_hex (last s)" by (simp_all add: list_all_iff)
    then show ?thesis by (simp add: lower_hex_not_ws)
  qed simp
qed

lemma toLowerCase_lower_hex: "list_all lower_hex s \<Longrightarrow> toLowerCase s = s"
  by (induction s) (simp_all add: toLowerCase_def lower_hex_lower_char)

lemma not_0x_lower_hex: "list_all lower_hex s \<Longrightarrow> \<not> startsWith s ''0x''"
  by (cases s; cases "tl s") (auto simp: startsWith_def lower_hex_def Let_def)

text \<open>Decoding undoes encoding: \<open>_hexToBytes(_bytesToHex(bytes))\<close> is \<open>bytes\<close>.\<close>

lemma hexToBytes_bytesToHex: "hexToBytes (JStr (bytesToHex bs)) = Inr bs"
  using lower_hex_bytesToHex [of bs]
  by (simp add: hexToBytes_def trim_lower_hex toLowerCase_lower_hex not_0x_lower_hex
      hex_loop_bytesToHex Let_def)

lemma take_bytesToHex: "take (2 * n) (bytesToHex bs) = bytesToHex (take n bs)"
proof (induction bs arbitrary: n)
  case Nil
  then show ?case by simp
next
  case (Cons b bs)
  then show ?case by (cases n) (simp_all add: bytesToHex_Cons)
qed

lemma seed_format_bytesToHex: "length seed = 32 \<Longrightarrow> seed_format (bytesToHex seed)"
  by (simp add: seed_format_def lower_hex_bytesToHex hexToBytes_bytesToHex)

subsection \<open>The stored seed and the wallet derived from it\<close>

lemma walletFromSeedHex_normalized:
  "length seed = 32 \<Longrightarrow>
   walletFromSeedHex env (JStr (bytesToHex seed)) =
     (if nacl_loaded env
      then Inr \<lparr> seedHex = bytesToHex seed,
                 publicKeyHex = bytesToHex (fst (fromSeed env seed)),
                 address = derive_address env (fst (fromSeed env seed)),
                 secretKey = snd (fromSeed env seed) \<rparr>
      else Inl NaclNotLoaded)"
  by (simp add: walletFromSeedHex_def hexToBytes_bytesToHex Let_def)

lemma getSeedHex_stored: "list_all lower_hex h \<Longrightarrow> getSeedHex (Some h) = h"
  by (simp add: getSeedHex_def trim_lower_hex)

lemma getWallet_stored:
  "length seed = 32 \<Longrightarrow>
   getWallet env (Some (bytesToHex seed)) =
     (case walletFromSeedHex env (JStr (bytesToHex seed)) of
        Inl e \<Rightarrow> Inl e | Inr w \<Rightarrow> Inr (Some w))"
proof -
  assume len: "length seed = 32"
  have "getSeedHex (Some (bytesToHex seed)) = bytesToHex seed"
    by (simp add: getSeedHex_stored lower_hex_bytesToHex)
  moreover have "bytesToHex seed \<noteq> []" using len by (metis length_bytesToHex list.size(3) mult_is_0 zero_neq_numeral)
  ultimately show ?thesis by (simp add: getWallet_def Let_def)
qed

lemma importSeed_cases:
  "importSeed env st v = (st', r) \<Longrightarrow>
     (\<exists>e. hexToBytes v = Inl e \<and> st' = st \<and> r = Inl e)
   \<or> (\<exists>seed. hexToBytes v = Inr seed \<and> length seed \<noteq> 32 \<and> st' = st \<and> r = Inl SeedNot32Bytes)
   \<or> (\<exists>seed. hexToBytes v = Inr seed \<and> length seed = 32 \<and> st' = Some (bytesToHex seed)
        \<and> r = walletFromSeedHex env (JStr (bytesToHex seed)))"
  by (auto simp: importSeed_def Let_def split: sum.splits if_splits)

lemma generateWallet_eq:
  "generateWallet env rnd st =
     (Some (bytesToHex (map rnd [0 ..< 32])),
      walletFromSeedHex env (JStr (bytesToHex (map rnd [0 ..< 32]))))"
  by (simp add: generateWallet_def Let_def)

text \<open>
  C8. A wallet returned by \<open>importSeed\<close> is the wallet \<open>getWallet\<close> returns
  afterwards, in every field, and so on every later call while the slot is not written;
  its \<open>seedHex\<close> is the stored value. The same holds after \<open>generateWallet\<close>,
  and importing the \<open>seedHex\<close> of a generated wallet gives that wallet again.
\<close>

theorem import_then_get:
  "(importSeed env st v = (st', Inr w) \<longrightarrow>
      getWallet env st' = Inr (Some w) \<and> seedHex w = the st')
   \<and> (generateWallet env rnd st = (st', Inr w) \<longrightarrow>
      getWallet env st' = Inr (Some w) \<and> importSeed env st0 (JStr (seedHex w)) = (st', Inr w))"
proof (intro conjI impI)
  assume a: "importSeed env st v = (st', Inr w)"
  from importSeed_cases [OF a] obtain seed where s: "length seed = 32" "st' = Some (bytesToHex seed)"
    "walletFromSeedHex env (JStr (bytesToHex seed)) = Inr w" by auto
  show "getWallet env st' = Inr (Some w)" using s by (simp add: getWallet_stored)
  show "seedHex w = the st'" using s by (auto simp: walletFromSeedHex_normalized split: if_splits)
next
  assume a: "generateWallet env rnd st = (st', Inr w)"
  let ?seed = "map rnd [0 ..< 32]"
  have len: "length ?seed = 32" by simp
  from a have s: "st' = Some (bytesToHex ?seed)" "walletFromSeedHex env (JStr (bytesToHex ?seed)) = Inr w"
    by (simp_all add: generateWallet_eq)
  show "getWallet env st' = Inr (Some w)" using s getWallet_stored [OF len, of env] by simp
  have sh: "seedHex w = bytesToHex ?seed" using s(2) walletFromSeedHex_normalized [OF len, of env]
    by (auto split: if_splits)
  show "importSeed env st0 (JStr (seedHex w)) = (st', Inr w)"
    using s len by (simp add: sh importSeed_def hexToBytes_bytesToHex Let_def)
qed


lemma zero_seed_hex_bytes: "zero_seed_hex = bytesToHex (replicate 32 0)"
  by code_simp

lemma demo_fromSeed_zero:
  "fromSeed demo_provider (replicate 32 0) = (replicate 32 1, replicate 32 0 @ replicate 32 1)"
  by (simp add: demo_provider_def)

lemma demo_address: "derive_address demo_provider (replicate 32 1) = ''RTC'' @ concat (replicate 20 ''01'')"
  by (simp add: derive_address_def sha256Hex_def demo_provider_def) code_simp

lemma demo_pubhex: "bytesToHex (replicate 32 1) = concat (replicate 32 ''01'')"
  by code_simp

lemma demo_walletFromSeedHex:
  "walletFromSeedHex demo_provider (JStr zero_seed_hex) = Inr demo_wallet"
proof -
  have "nacl_loaded demo_provider" by (simp add: demo_provider_def)
  then show ?thesis
    unfolding zero_seed_hex_bytes
    by (simp add: walletFromSeedHex_normalized demo_fromSeed_zero demo_address demo_pubhex
        demo_wallet_def zero_seed_hex_bytes)
qed

lemma demo_importSeed: "importSeed demo_provider st (JStr zero_seed_hex) = (Some zero_seed_hex, Inr demo_wallet)"
  using demo_walletFromSeedHex
  by (simp add: importSeed_def zero_seed_hex_bytes hexToBytes_bytesToHex Let_def)





theorem import_then_get_witness:
  "importSeed demo_provider None (JStr zero_seed_hex) = (Some zero_seed_hex, Inr demo_wallet)
   \<and> getWallet demo_provider (Some zero_seed_hex) = Inr (Some demo_wallet)"
  using import_then_get [of demo_provider None "JStr zero_seed_hex" "Some zero_seed_hex" demo_wallet]
    demo_importSeed [of None]
  by simp




text \<open>
  C6. The address is \<open>RTC\<close> followed by the hexadecimal form of the first 20 bytes
  of the SHA-256 digest of the public key: 40 lowercase hexadecimal digits when the digest
  has its 32 bytes. It is a function of the public key alone, and it is the address of
  every wallet that \<open>_walletFromSeedHex\<close> returns.
\<close>

theorem address_derivation:
  "derive_address env pk = ''RTC'' @ bytesToHex (take 20 (sha256 env pk))
   \<and> list_all lower_hex (drop 3 (derive_address env pk))
   \<and> (length (sha256 env pk) = 32 \<longrightarrow> length (derive_address env pk) = 43)
   \<and> (walletFromSeedHex env v = Inr w \<longrightarrow>
        (\<exists>seed. hexToBytes v = Inr seed \<and> length seed = 32
           \<and> publicKeyHex w = bytesToHex (fst (fromSeed env seed))
           \<and> address w = derive_address env (fst (fromSeed env seed))))"
proof (intro conjI impI)
  have t: "take 40 (bytesToHex h) = bytesToHex (take 20 h)" for h
    using take_bytesToHex [of 20 h] by simp
  show eq: "derive_address env pk = ''RTC'' @ bytesToHex (take 20 (sha256 env pk))"
    by (simp add: derive_address_def sha256Hex_def t)
  show "list_all lower_hex (drop 3 (derive_address env pk))"
    by (simp add: eq lower_hex_bytesToHex)
  show "length (derive_address env pk) = 43" if "length (sha256 env pk) = 32"
    using that by (simp add: eq)
  show "\<exists>seed. hexToBytes v = Inr seed \<and> length seed = 32
           \<and> publicKeyHex w = bytesToHex (fst (fromSeed env seed))
           \<and> address w = derive_address env (fst (fromSeed env seed))"
    if "walletFromSeedHex env v = Inr w"
    using that by (auto simp: walletFromSeedHex_def Let_def split: if_splits sum.splits)
qed

theorem address_derivation_witness:
  "length (sha256 demo_provider (replicate 32 1)) = 32
   \<and> walletFromSeedHex demo_provider (JStr zero_seed_hex) = Inr demo_wallet
   \<and> derive_address demo_provider (replicate 32 1) = ''RTC'' @ bytesToHex (replicate 20 1)
   \<and> length (derive_address demo_provider (replicate 32 1)) = 43
   \<and> address demo_wallet = derive_address demo_provider (replicate 32 1)"
proof -
  have h: "sha256 demo_provider (replicate 32 1) = replicate 32 1"
    by (simp add: demo_provider_def)
  have a: "address demo_wallet = derive_address demo_provider (replicate 32 1)"
    by (simp add: demo_wallet_def demo_address)
  show ?thesis
    using address_derivation [of demo_provider "replicate 32 1" "JStr zero_seed_hex" demo_wallet]
      demo_walletFromSeedHex a
    by (simp add: h)
qed

text \<open>
  C7. After \<open>clearWallet\<close> the slot is empty, whatever calls of \<open>generateWallet\<close>
  and \<open>importSeed\<close> came before: \<open>getWallet\<close> returns \<open>null\<close> and
  \<open>signTransfer\<close> throws \<open>no local wallet\<close>, so no payload is produced.
\<close>

theorem clear_then_locked:
  "clearWallet (run_calls env st calls) = None
   \<and> getWallet env (clearWallet (run_calls env st calls)) = Inr None
   \<and> signTransfer env (clearWallet (run_calls env st calls)) toAddr amountRtc memo' nonceInt
       = Inl NoLocalWallet"
  by (simp add: clearWallet_def getWallet_def getSeedHex_def signTransfer_def or_empty_def trim_def)

text \<open>
  C9. What \<open>generateWallet\<close> writes to the slot has the seed format. \<open>importSeed\<close>
  either throws and leaves the slot as it was, or writes a value of the seed format,
  whatever the argument was.
\<close>

theorem stored_seed_format:
  "(\<exists>h. fst (generateWallet env rnd st) = Some h \<and> seed_format h)
   \<and> ((\<exists>e. importSeed env st v = (st, Inl e))
        \<or> (\<exists>h. fst (importSeed env st v) = Some h \<and> seed_format h))"
proof
  show "\<exists>h. fst (generateWallet env rnd st) = Some h \<and> seed_format h"
    by (simp add: generateWallet_eq seed_format_bytesToHex)
  obtain st' r where sr: "importSeed env st v = (st', r)" by (cases "importSeed env st v")
  from importSeed_cases [OF sr]
  show "(\<exists>e. importSeed env st v = (st, Inl e))
        \<or> (\<exists>h. fst (importSeed env st v) = Some h \<and> seed_format h)"
    using sr by (auto simp: seed_format_bytesToHex)
qed





subsection \<open>Decimal digits\<close>

lemma dec_digit_digit_char: "d < 10 \<Longrightarrow> dec_digit (digit_char d)"
  by (auto simp: digit_char_def dec_digit_def)

lemma dec_digit_is_digit: "dec_digit c \<Longrightarrow> is_digit 10 c"
  by (auto simp: dec_digit_def is_digit_def digit_val_def Let_def)

lemma show_nat_ne [simp]: "show_nat n \<noteq> []"
  by (subst show_nat.simps) simp

lemma show_nat_small: "n < 10 \<Longrightarrow> show_nat n = [digit_char n]"
  by (subst show_nat.simps) simp

lemma show_nat_big: "10 \<le> n \<Longrightarrow> show_nat n = show_nat (n div 10) @ [digit_char (n mod 10)]"
  by (subst show_nat.simps) simp

lemma dec_digit_show_nat: "list_all dec_digit (show_nat n)"
proof (induction n rule: show_nat.induct)
  case (1 n)
  show ?case
  proof (cases "n < 10")
    case True
    then show ?thesis by (simp add: show_nat_small dec_digit_digit_char)
  next
    case False
    then show ?thesis using 1 by (simp add: show_nat_big dec_digit_digit_char)
  qed
qed

lemma last_show_nat: "last (show_nat n) = digit_char (n mod 10)"
  by (cases "n < 10") (simp_all add: show_nat_small show_nat_big)

lemma char_of_48: "char_of (48::nat) = CHR ''0''"
  by code_simp

lemma of_char_digit_char: "d < 10 \<Longrightarrow> (of_char (digit_char d) :: nat) = 48 + d"
  by (simp add: digit_char_def)

lemma digit_char_zero: "d < 10 \<Longrightarrow> (digit_char d = CHR ''0'') = (d = 0)"
proof
  assume d: "d < 10" and "digit_char d = CHR ''0''"
  then have "(of_char (digit_char d) :: nat) = of_char (CHR ''0'')" by simp
  then show "d = 0" using d by (simp add: of_char_digit_char)
next
  assume "d = 0"
  then show "digit_char d = CHR ''0''" by (simp add: digit_char_def char_of_48)
qed

lemma hd_show_nat: "n \<noteq> 0 \<Longrightarrow> hd (show_nat n) \<noteq> CHR ''0''"
proof (induction n rule: show_nat.induct)
  case (1 n)
  show ?case
  proof (cases "n < 10")
    case True
    then show ?thesis using 1(2) by (simp add: show_nat_small digit_char_zero)
  next
    case False
    then have "n div 10 \<noteq> 0" by simp
    then show ?thesis using 1 False by (simp add: show_nat_big)
  qed
qed

lemma show_nat_bounds: "n < 10 ^ length (show_nat n) \<and> (n \<noteq> 0 \<longrightarrow> 10 ^ (length (show_nat n) - 1) \<le> n)"
proof (induction n rule: show_nat.induct)
  case (1 n)
  show ?case
  proof (cases "n < 10")
    case True
    then show ?thesis by (simp add: show_nat_small)
  next
    case False
    then have ih: "n div 10 < 10 ^ length (show_nat (n div 10))"
      "10 ^ (length (show_nat (n div 10)) - 1) \<le> n div 10"
      using 1 by simp_all
    have l: "length (show_nat (n div 10)) > 0" by simp
    from ih(1) have "n < 10 * 10 ^ length (show_nat (n div 10))" by simp
    moreover from ih(2) have "10 * 10 ^ (length (show_nat (n div 10)) - 1) \<le> n" by simp
    moreover have "(10::nat) * 10 ^ (length (show_nat (n div 10)) - 1) = 10 ^ length (show_nat (n div 10))"
      using l by (cases "length (show_nat (n div 10))") simp_all
    ultimately have "10 ^ length (show_nat (n div 10)) \<le> n" by simp
    moreover note \<open>n < 10 * 10 ^ length (show_nat (n div 10))\<close>
    ultimately show ?thesis using False by (simp add: show_nat_big)
  qed
qed

lemma length_show_nat_le: "n < 10 ^ k \<Longrightarrow> 0 < k \<Longrightarrow> length (show_nat n) \<le> k"
proof (rule ccontr)
  assume a: "n < 10 ^ k" "0 < k" "\<not> length (show_nat n) \<le> k"
  then have "k \<le> length (show_nat n) - 1" by simp
  then have "(10::nat) ^ k \<le> 10 ^ (length (show_nat n) - 1)" by (simp add: power_increasing)
  moreover have "n \<noteq> 0"
  proof
    assume "n = 0"
    then have "length (show_nat n) = 1" by (simp add: show_nat_small)
    then show False using a by simp
  qed
  ultimately have "10 ^ k \<le> n" using show_nat_bounds [of n] by (meson le_trans)
  then show False using a(1) by simp
qed

lemma length_show_nat_gt: "10 ^ k \<le> n \<Longrightarrow> k < length (show_nat n)"
proof (rule ccontr)
  assume a: "10 ^ k \<le> n" "\<not> k < length (show_nat n)"
  then have "(10::nat) ^ length (show_nat n) \<le> 10 ^ k" by (simp add: power_increasing)
  then have "10 ^ length (show_nat n) \<le> n" using a(1) by (rule le_trans)
  moreover have "n < 10 ^ length (show_nat n)" using show_nat_bounds [of n] by blast
  ultimately show False by linarith
qed

lemma show_nat_times10: "0 < n \<Longrightarrow> show_nat (n * 10) = show_nat n @ ''0''"
  by (simp add: show_nat_big digit_char_def char_of_48)

lemma show_nat_times_pow10: "0 < n \<Longrightarrow> show_nat (n * 10 ^ j) = show_nat n @ replicate j (CHR ''0'')"
proof (induction j)
  case 0
  then show ?case by simp
next
  case (Suc j)
  have "show_nat (n * 10 ^ Suc j) = show_nat ((n * 10 ^ j) * 10)" by (simp add: mult_ac)
  also have "\<dots> = show_nat (n * 10 ^ j) @ ''0''" using Suc(2) by (simp only: show_nat_times10 mult_pos_pos zero_less_power zero_less_numeral)
  also have "\<dots> = show_nat n @ replicate (Suc j) (CHR ''0'')"
    using Suc by (simp add: replicate_append_same)
  finally show ?case .
qed

lemma digits_val_append: "digits_val R acc (xs @ ys) = digits_val R (digits_val R acc xs) ys"
  by (induction xs arbitrary: acc) simp_all

lemma digits_val_show_nat: "digits_val 10 0 (show_nat n) = n"
proof (induction n rule: show_nat.induct)
  case (1 n)
  show ?case
  proof (cases "n < 10")
    case True
    then show ?thesis by (simp add: show_nat_small digit_val_digit_char)
  next
    case False
    then show ?thesis using 1
      by (simp add: show_nat_big digits_val_append digit_val_digit_char)
  qed
qed

lemma digits_val_zeros: "digits_val 10 0 (replicate j (CHR ''0'') @ xs) = digits_val 10 0 xs"
  by (induction j) (simp_all add: digit_val_def)

lemma strip_zeros_spec:
  "strip_zeros m e = (s, e') \<Longrightarrow>
     e \<le> e' \<and> m = s * 10 ^ nat (e' - e) \<and> (m \<noteq> 0 \<longrightarrow> s mod 10 \<noteq> 0) \<and> (m = 0 \<longrightarrow> s = 0)"
proof (induction m e arbitrary: s e' rule: strip_zeros.induct)
  case (1 m e)
  show ?case
  proof (cases "m \<noteq> 0 \<and> m mod 10 = 0")
    case True
    then have "strip_zeros (m div 10) (e + 1) = (s, e')"
      using 1(2) by (subst (asm) strip_zeros.simps) simp
    from 1(1) [OF True this] True
    have ih: "e + 1 \<le> e'" "m div 10 = s * 10 ^ nat (e' - (e + 1))" "s mod 10 \<noteq> 0"
      by auto
    have "nat (e' - e) = Suc (nat (e' - (e + 1)))" using ih(1) by simp
    moreover have "m = (m div 10) * 10" using True by auto
    ultimately show ?thesis using ih True by simp
  next
    case False
    then have "strip_zeros m e = (m, e)" by (subst strip_zeros.simps) auto
    then have "s = m" "e' = e" using 1(2) by simp_all
    then show ?thesis using False by auto
  qed
qed

subsection \<open>\<open>Number.prototype.toString\<close> by magnitude\<close>

lemma dec_digit_not_special:
  "dec_digit c \<Longrightarrow> c \<noteq> CHR ''.'' \<and> c \<noteq> CHR ''e'' \<and> c \<noteq> CHR ''E'' \<and> c \<noteq> CHR ''-'' \<and> c \<noteq> CHR ''+''
     \<and> c \<noteq> CHR ''N'' \<and> \<not> is_ws c"
  by (auto simp: dec_digit_def is_ws_def)

lemma digits_no_point:
  "list_all dec_digit s \<Longrightarrow> CHR ''.'' \<notin> set s \<and> CHR ''e'' \<notin> set s \<and> CHR ''E'' \<notin> set s"
  using dec_digit_not_special by (auto simp: list_all_iff)

lemma toString_pos_int:
  assumes "0 < m" "0 \<le> e" "m * 10 ^ nat e < 10 ^ 21"
  shows "toString_pos m e = show_nat (m * 10 ^ nat e)"
proof -
  obtain s e' where se: "strip_zeros m e = (s, e')" by (cases "strip_zeros m e")
  from strip_zeros_spec [OF se] assms
  have f: "e \<le> e'" "m = s * 10 ^ nat (e' - e)" "0 < s" by auto
  have "nat (e' - e) + nat e = nat e'" using f(1) assms(2) by simp
  then have M: "m * 10 ^ nat e = s * 10 ^ nat e'"
    using f(2) by (simp add: power_add [symmetric] mult.assoc del: power_add)
  have sh: "show_nat (m * 10 ^ nat e) = show_nat s @ replicate (nat e') (CHR ''0'')"
    using f(3) by (simp add: M show_nat_times_pow10)
  have "length (show_nat (m * 10 ^ nat e)) \<le> 21"
    using assms(3) by (rule length_show_nat_le) simp
  then have le: "int (length (show_nat s)) + e' \<le> 21" using sh f(1) assms(2) by simp
  have e'0: "0 \<le> e'" using f(1) assms(2) by simp
  show ?thesis
    using le e'0 by (simp add: toString_pos_def se sh Let_def)
qed

lemma toString_pos_big:
  assumes "0 \<le> e" "10 ^ 21 \<le> m * 10 ^ nat e"
  shows "CHR ''e'' \<in> set (toString_pos m e)"
proof -
  obtain s e' where se: "strip_zeros m e = (s, e')" by (cases "strip_zeros m e")
  have m0: "m \<noteq> 0" using assms(2) by (cases "m = 0") simp_all
  from strip_zeros_spec [OF se] assms m0
  have f: "e \<le> e'" "m = s * 10 ^ nat (e' - e)" "0 < s" by auto
  have "nat (e' - e) + nat e = nat e'" using f(1) assms(1) by simp
  then have M: "m * 10 ^ nat e = s * 10 ^ nat e'"
    using f(2) by (simp add: power_add [symmetric] mult.assoc del: power_add)
  have sh: "show_nat (m * 10 ^ nat e) = show_nat s @ replicate (nat e') (CHR ''0'')"
    using f(3) by (simp add: M show_nat_times_pow10)
  have "21 < length (show_nat (m * 10 ^ nat e))"
    using assms(2) by (rule length_show_nat_gt)
  then have gt: "21 < int (length (show_nat s)) + e'" using sh f(1) assms(1) by simp
  show ?thesis
    using gt by (simp add: toString_pos_def se Let_def)
qed

lemma strip_zeros_id: "m mod 10 \<noteq> 0 \<Longrightarrow> strip_zeros m e = (m, e)"
  by (subst strip_zeros.simps) auto

lemma toString_pos_fraction:
  assumes "e < 0" "m mod 10 \<noteq> 0" "10 ^ nat (- e - 6) \<le> m" "m < 10 ^ nat (21 - e)"
  shows "\<exists>ip fp. toString_pos m e = ip @ ''.'' @ fp
           \<and> digits_val 10 0 (ip @ fp) = m \<and> length fp = nat (- e)
           \<and> last fp \<noteq> CHR ''0'' \<and> list_all dec_digit (ip @ fp)
           \<and> ip \<noteq> [] \<and> (ip = ''0'' \<or> hd ip \<noteq> CHR ''0'')"
proof -
  let ?ds = "show_nat m"
  let ?k = "int (length ?ds)"
  let ?n = "?k + e"
  have m0: "m \<noteq> 0" using assms(2) by (cases "m = 0") simp_all
  have "length ?ds \<le> nat (21 - e)" using assms(4) by (rule length_show_nat_le) (use assms(1) in simp)
  then have n21: "?n \<le> 21" using assms(1) by simp
  have "nat (- e - 6) < length ?ds" using assms(3) by (rule length_show_nat_gt)
  then have n6: "- 6 < ?n" by simp
  have lastds: "last ?ds \<noteq> CHR ''0''"
    using assms(2) by (simp add: last_show_nat digit_char_zero)
  have digs: "list_all dec_digit ?ds" by (rule dec_digit_show_nat)
  have kn: "\<not> ?k \<le> ?n" using assms(1) by simp
  show ?thesis
  proof (cases "0 < ?n")
    case True
    let ?ip = "take (nat ?n) ?ds" and ?fp = "drop (nat ?n) ?ds"
    have ts: "toString_pos m e = ?ip @ ''.'' @ ?fp"
      using True n21 kn by (simp add: toString_pos_def strip_zeros_id [OF assms(2)] Let_def)
    have "0 < length ?ds" by simp
    then have lt: "nat ?n < length ?ds" using assms(1) by arith
    have fpne: "?fp \<noteq> []" using lt by simp
    have "length ?fp = nat (- e)" using True assms(1) by simp
    moreover have "last ?fp \<noteq> CHR ''0''" using lastds lt by simp
    moreover have "?ip \<noteq> []" using True by simp
    moreover have "hd ?ip \<noteq> CHR ''0''" using True hd_show_nat [OF m0] by simp
    ultimately show ?thesis
      using ts digs by (intro exI [of _ ?ip] exI [of _ ?fp]) (simp add: digits_val_show_nat)
  next
    case False
    let ?fp = "replicate (nat (- ?n)) (CHR ''0'') @ ?ds"
    have ts: "toString_pos m e = ''0'' @ ''.'' @ ?fp"
      using False n6 kn by (simp add: toString_pos_def strip_zeros_id [OF assms(2)] Let_def)
    have "length ?fp = nat (- e)" using False assms(1) by simp
    moreover have "last ?fp \<noteq> CHR ''0''" using lastds by simp
    moreover have "digits_val 10 0 (''0'' @ ?fp) = m"
      using digits_val_zeros [of "Suc (nat (- ?n))" ?ds] by (simp add: digits_val_show_nat)
    moreover have "list_all dec_digit (''0'' @ ?fp)"
      using digs by (auto simp: list_all_iff dec_digit_def)
    ultimately show ?thesis
      using ts by (intro exI [of _ "''0''"] exI [of _ ?fp]) simp
  qed
qed

lemma toString_pos_tiny:
  assumes "e < 0" "m mod 10 \<noteq> 0" "m < 10 ^ nat (- e - 6)"
  shows "CHR ''e'' \<in> set (toString_pos m e) \<and> CHR ''-'' \<in> set (toString_pos m e)"
proof -
  have pos: "0 < nat (- e - 6)"
  proof (rule ccontr)
    assume "\<not> 0 < nat (- e - 6)"
    then have "m < 1" using assms(3) by simp
    then show False using assms(2) by simp
  qed
  have "length (show_nat m) \<le> nat (- e - 6)" using assms(3) pos by (rule length_show_nat_le)
  then have n: "int (length (show_nat m)) + e \<le> - 6" using pos by simp
  show ?thesis
    using n assms(1) by (simp add: toString_pos_def strip_zeros_id [OF assms(2)] Let_def)
qed

subsection \<open>The amount\<close>

lemma sign_no_point: "CHR ''.'' \<notin> set (sign_str b) \<and> CHR ''e'' \<notin> set (sign_str b) \<and> CHR ''E'' \<notin> set (sign_str b)"
  by (simp add: sign_str_def)

lemma Number_toString_int:
  assumes "0 \<le> e" "m * 10 ^ nat e < 10 ^ 21"
  shows "Number_toString (Finite neg m e) = sign_str (neg \<and> m \<noteq> 0) @ show_nat (m * 10 ^ nat e)"
proof (cases "m = 0")
  case True
  then show ?thesis by (simp add: sign_str_def show_nat_small digit_char_def char_of_48)
next
  case False
  then show ?thesis using toString_pos_int [of m e] assms by (simp add: sign_str_def)
qed

lemma pyFloatRepr_not_finite:
  "pyFloatRepr NaN = Inl AmountNotFinite" "pyFloatRepr (Infinity neg) = Inl AmountNotFinite"
  by (simp_all add: pyFloatRepr_def Number_isFinite_def)

text \<open>The printed digits are an integer below \<open>10^21\<close>: they are followed by \<open>.0\<close>.\<close>

lemma pyFloatRepr_digits_int:
  assumes h: "0 \<le> e" "m * 10 ^ nat e < 10 ^ 21"
  shows "pyFloatRepr (Finite neg m e)
          = Inr (sign_str (neg \<and> m \<noteq> 0) @ show_nat (m * 10 ^ nat e) @ ''.0'')"
proof -
  have "list_all dec_digit (show_nat (m * 10 ^ nat e))" by (rule dec_digit_show_nat)
  then show ?thesis
    using digits_no_point [of "show_nat (m * 10 ^ nat e)"] sign_no_point [of "neg \<and> m \<noteq> 0"]
    by (simp add: pyFloatRepr_def Number_isFinite_def Number_toString_int [OF h] Let_def
        del: Number_toString.simps)
qed

lemma pyFloatRepr_digits_big:
  assumes h: "0 \<le> e" "10 ^ 21 \<le> m * 10 ^ nat e"
  shows "pyFloatRepr (Finite neg m e) = Inr (Number_toString (Finite neg m e))
        \<and> CHR ''e'' \<in> set (Number_toString (Finite neg m e))"
proof -
  have "m \<noteq> 0" using h(2) by (cases "m = 0") simp_all
  then have "CHR ''e'' \<in> set (Number_toString (Finite neg m e))"
    using toString_pos_big [OF h] by simp
  then show ?thesis
    by (simp add: pyFloatRepr_def Number_isFinite_def Let_def del: Number_toString.simps)
qed

lemma pyFloatRepr_fraction:
  assumes h: "e < 0" "m mod 10 \<noteq> 0" "10 ^ nat (- e - 6) \<le> m" "m < 10 ^ nat (21 - e)"
  shows "\<exists>ip fp. pyFloatRepr (Finite neg m e) = Inr (sign_str neg @ ip @ ''.'' @ fp)
           \<and> digits_val 10 0 (ip @ fp) = m \<and> length fp = nat (- e)
           \<and> last fp \<noteq> CHR ''0'' \<and> list_all dec_digit (ip @ fp)
           \<and> ip \<noteq> [] \<and> (ip = ''0'' \<or> hd ip \<noteq> CHR ''0'')"
proof -
  from toString_pos_fraction [OF h] obtain ip fp where
    ts: "toString_pos m e = ip @ ''.'' @ fp" and
    r: "digits_val 10 0 (ip @ fp) = m" "length fp = nat (- e)" "last fp \<noteq> CHR ''0''"
       "list_all dec_digit (ip @ fp)" "ip \<noteq> []" "ip = ''0'' \<or> hd ip \<noteq> CHR ''0''"
    by blast
  have "m \<noteq> 0" using h(2) by (cases "m = 0") simp_all
  then have "Number_toString (Finite neg m e) = sign_str neg @ ip @ ''.'' @ fp"
    by (simp add: ts sign_str_def)
  then have "pyFloatRepr (Finite neg m e) = Inr (sign_str neg @ ip @ ''.'' @ fp)"
    by (simp add: pyFloatRepr_def Number_isFinite_def Let_def del: Number_toString.simps)
  then show ?thesis using r by blast
qed

lemma pyFloatRepr_tiny:
  assumes h: "e < 0" "m mod 10 \<noteq> 0" "m < 10 ^ nat (- e - 6)"
  shows "pyFloatRepr (Finite neg m e) = Inr (Number_toString (Finite neg m e))
        \<and> CHR ''e'' \<in> set (Number_toString (Finite neg m e))"
proof -
  have "m \<noteq> 0" using h(2) by (cases "m = 0") simp_all
  then have "CHR ''e'' \<in> set (Number_toString (Finite neg m e))"
    using toString_pos_tiny [OF h] by simp
  then show ?thesis
    by (simp add: pyFloatRepr_def Number_isFinite_def Let_def del: Number_toString.simps)
qed

lemma toString_rescale: "0 < m \<Longrightarrow> Number_toString (Finite neg (m * 10) (e - 1)) = Number_toString (Finite neg m e)"
proof -
  assume m: "0 < m"
  have "strip_zeros (m * 10) (e - 1) = strip_zeros m e"
    using m by (subst strip_zeros.simps) simp
  then show ?thesis using m by (simp add: toString_pos_def)
qed

subsection \<open>Signing a transfer\<close>

lemma canonicalTxJson_eq:
  "canonicalTxJson fromAddr toAddr amountRtc memo' nonceStr =
     (case pyFloatRepr amountRtc of
        Inl e \<Rightarrow> Inl e
      | Inr amount \<Rightarrow>
          Inr (json_object (canonical_fields amount (or_empty fromAddr) (or_empty memo')
                 (or_empty nonceStr) (or_empty toAddr))))"
  by (simp add: canonicalTxJson_def json_object_def json_member_def canonical_fields_def
      split: sum.splits)

lemma pyFloatRepr_error: "pyFloatRepr x = Inl e \<Longrightarrow> e = AmountNotFinite"
  by (auto simp: pyFloatRepr_def Let_def split: if_splits)

lemma toString_pos_hd: "toString_pos m e \<noteq> [] \<and> dec_digit (hd (toString_pos m e))"
proof -
  obtain s e' where se: "strip_zeros m e = (s, e')" by (cases "strip_zeros m e")
  have d: "dec_digit (hd (show_nat s))" and ne: "show_nat s \<noteq> []"
    using dec_digit_show_nat [of s] by (cases "show_nat s"; simp)+
  have z: "dec_digit (CHR ''0'')" by (simp add: dec_digit_def)
  show ?thesis
    using d ne z by (auto simp: toString_pos_def se Let_def hd_append)
qed

lemma Number_toString_NaN: "Number_toString x \<noteq> [] \<and> (Number_toString x = ''NaN'') = (x = NaN)"
proof (cases x)
  case NaN
  then show ?thesis by simp
next
  case (Infinity b)
  then show ?thesis by simp
next
  case (Finite neg m e)
  have "toString_pos m e \<noteq> ''NaN''"
    using toString_pos_hd [of m e] dec_digit_not_special [of "hd (toString_pos m e)"] by auto
  then show ?thesis using Finite toString_pos_hd [of m e] by simp
qed

lemma number_of_int_not_NaN: "number_of_int neg v \<noteq> NaN"
  by (simp add: number_of_int_def split: option.splits)

lemma parseInt_NaN: "(parseInt s R = NaN) = (parseInt_math s R = None)"
  by (auto simp: parseInt_def number_of_int_not_NaN split: option.splits)

text \<open>What \<open>signTransfer\<close> does once the wallet is there.\<close>

lemma signTransfer_with_wallet:
  assumes "getWallet env st = Inr (Some w)"
  shows "signTransfer env st toAddr amountRtc memo' nonceInt =
     (let nonceStr = Number_toString (parseInt (String_of nonceInt) 10)
      in if parseInt_math (String_of nonceInt) 10 = None then Inl InvalidNonce
         else case pyFloatRepr amountRtc of
                Inl e \<Rightarrow> Inl AmountNotFinite
              | Inr amount \<Rightarrow>
                  let msg = json_object (canonical_fields amount (address w) (or_empty memo')
                              nonceStr (or_empty toAddr))
                  in Inr \<lparr> from_address = address w,
                           public_key = publicKeyHex w,
                           signature = bytesToHex
                             (sign_detached env (TextEncoder_encode msg) (secretKey w)),
                           nonce = parseInt nonceStr 10,
                           memo = or_empty memo',
                           canonical_message = msg \<rparr>)"
proof -
  let ?ns = "Number_toString (parseInt (String_of nonceInt) 10)"
  have "(?ns = [] \<or> ?ns = ''NaN'') = (parseInt_math (String_of nonceInt) 10 = None)"
    using Number_toString_NaN [of "parseInt (String_of nonceInt) 10"]
    by (simp add: parseInt_NaN)
  then show ?thesis
    using assms
    by (auto simp: signTransfer_def canonicalTxJson_eq Let_def
        split: sum.splits dest: pyFloatRepr_error)
qed

lemma signTransfer_Inr_wallet:
  "signTransfer env st toAddr amountRtc memo' nonceInt = Inr p \<Longrightarrow> \<exists>w. getWallet env st = Inr (Some w)"
  by (auto simp: signTransfer_def split: sum.splits option.splits)

lemma number_char_show_nat: "list_all number_char (show_nat n)"
  using dec_digit_show_nat [of n] by (simp add: list_all_iff number_char_def)

lemma number_char_toString_pos: "list_all number_char (toString_pos m e)"
proof -
  obtain s e' where se: "strip_zeros m e = (s, e')" by (cases "strip_zeros m e")
  have a: "\<forall>c\<in>set (show_nat n). number_char c" for n
    using number_char_show_nat [of n] by (simp add: list_all_iff)
  have z: "number_char (CHR ''0'')" "number_char (CHR ''.'')" "number_char (CHR ''e'')"
    "number_char (CHR ''+'')" "number_char (CHR ''-'')"
    by (simp_all add: number_char_def dec_digit_def)
  show ?thesis
    using a z
    by (auto simp: toString_pos_def se Let_def list_all_iff dest: in_set_takeD in_set_dropD)
qed

lemma number_char_pyFloatRepr: "pyFloatRepr x = Inr a \<Longrightarrow> list_all number_char a"
proof (cases x)
  case (Finite neg m e)
  assume p: "pyFloatRepr x = Inr a"
  have z: "number_char (CHR ''0'')" "number_char (CHR ''.'')" "number_char (CHR ''-'')"
    by (simp_all add: number_char_def dec_digit_def)
  have "list_all number_char (Number_toString x)"
    using Finite number_char_toString_pos [of m e] z by simp
  then show ?thesis
    using p z by (auto simp: pyFloatRepr_def Let_def split: if_splits)
qed (simp_all add: pyFloatRepr_def Number_isFinite_def)

lemma number_of_int_small: "v < 2 ^ 53 \<Longrightarrow> number_of_int neg v = Finite neg v 0"
  by (simp add: number_of_int_def round_double_def)

lemma Number_toString_small:
  assumes "v < 2 ^ 53"
  shows "Number_toString (Finite neg v 0) = sign_str (neg \<and> v \<noteq> 0) @ show_nat v"
proof -
  have "v < 10 ^ 21" using assms by simp
  then show ?thesis using Number_toString_int [of 0 v neg] by simp
qed

lemma takeWhile_digits: "takeWhile (is_digit 10) (show_nat v) = show_nat v"
  using dec_digit_show_nat [of v] dec_digit_is_digit
  by (simp add: takeWhile_eq_all_conv list_all_iff)

lemma parseInt_math_show: "parseInt_math (sign_str b @ show_nat v) 10 = Some (b, v)"
proof -
  let ?z = "show_nat v"
  have d: "dec_digit (hd ?z)" using dec_digit_show_nat [of v] by (cases ?z) simp_all
  have nd: "\<not> is_ws (hd ?z)" "hd ?z \<noteq> CHR ''-''" "hd ?z \<noteq> CHR ''+''"
    using dec_digit_not_special [OF d] by simp_all
  have dw: "dropWhile is_ws ?z = ?z" using nd(1) by (simp add: dropWhile_hd)
  have ws: "\<not> is_ws (CHR ''-'')" by (simp add: is_ws_def)
  show ?thesis
  proof (cases b)
    case True
    then show ?thesis
      using ws by (simp add: parseInt_math_def sign_str_def Let_def takeWhile_digits
          digits_val_show_nat)
  next
    case False
    then show ?thesis
      using nd dw by (simp add: parseInt_math_def sign_str_def Let_def takeWhile_digits
          digits_val_show_nat)
  qed
qed

text \<open>The nonce of magnitude below \<open>2^53\<close>: its string and the Number read back from it.\<close>

lemma nonce_small:
  assumes "parseInt_math s 10 = Some (neg, v)" "v < 2 ^ 53"
  shows "Number_toString (parseInt s 10) = sign_str (neg \<and> v \<noteq> 0) @ show_nat v"
    and "parseInt (Number_toString (parseInt s 10)) 10 = Finite (neg \<and> v \<noteq> 0) v 0"
proof -
  show a: "Number_toString (parseInt s 10) = sign_str (neg \<and> v \<noteq> 0) @ show_nat v"
    using assms by (simp add: parseInt_def number_of_int_small Number_toString_small
        del: Number_toString.simps)
  show "parseInt (Number_toString (parseInt s 10)) 10 = Finite (neg \<and> v \<noteq> 0) v 0"
    unfolding a using assms(2) by (simp add: parseInt_def parseInt_math_show number_of_int_small)
qed



lemma demo_getWallet: "getWallet demo_provider (Some zero_seed_hex) = Inr (Some demo_wallet)"
  using getWallet_stored [of "replicate 32 0" demo_provider] demo_walletFromSeedHex
  by (simp add: zero_seed_hex_bytes)

lemma pyFloatRepr_2_5: "pyFloatRepr (Finite False 25 (- 1)) = Inr ''2.5''"
  by code_simp

lemma demo_sign_detached: "sign_detached demo_provider msg sk = replicate 64 0"
  by (simp add: demo_provider_def)

lemma demo_signTransfer:
  assumes "parseInt_math (String_of nonceInt) 10 = Some (neg, v)" "v < 2 ^ 53"
  shows "signTransfer demo_provider (Some zero_seed_hex) (JStr ''RTCabc'') (Finite False 25 (- 1))
           memo' nonceInt
         = Inr (demo_payload (or_empty memo') (Finite (neg \<and> v \<noteq> 0) v 0)
                  (sign_str (neg \<and> v \<noteq> 0) @ show_nat v))"
  using assms nonce_small [OF assms]
  by (simp add: signTransfer_with_wallet [OF demo_getWallet] pyFloatRepr_2_5 demo_payload_def
      demo_sign_detached Let_def)

subsection \<open>JSON string literals\<close>

lemma json_unescape_u:
  assumes "n < 32"
  shows "json_unescape Plain (backslash # CHR ''u'' # CHR ''0'' # CHR ''0'' # digit_char (n div 16)
            # digit_char (n mod 16) # s)
         = map_option ((#) (char_of n)) (json_unescape Plain s)"
proof -
  have a: "n div 16 < 16" "n mod 16 < 16" using assms by simp_all
  have d: "is_digit 16 (digit_char (n div 16))" "is_digit 16 (digit_char (n mod 16))"
    using a by (simp_all add: is_digit_digit_char)
  have z: "is_digit 16 (CHR ''0'')" "digit_val (CHR ''0'') = Some 0"
    by (simp_all add: is_digit_def digit_val_def)
  have v: "n div 16 * 16 + n mod 16 = n" by simp
  show ?thesis
    using d z assms a by (simp add: digit_val_digit_char v Let_def)
qed

lemma dquote_code: "(c = dquote) = ((of_char c :: nat) = 34)"
proof -
  have "(of_char dquote :: nat) = 34" by (simp add: dquote_def)
  then have "((of_char c :: nat) = 34) = ((of_char c :: nat) = of_char dquote)" by simp
  then show ?thesis by (simp only: of_char_eq_iff)
qed

lemma backslash_code: "(c = backslash) = ((of_char c :: nat) = 92)"
proof -
  have "(of_char backslash :: nat) = 92" by (simp add: backslash_def)
  then have "((of_char c :: nat) = 92) = ((of_char c :: nat) = of_char backslash)" by simp
  then show ?thesis by (simp only: of_char_eq_iff)
qed

lemma char_of_of_char_eq: "(of_char c :: nat) = n \<Longrightarrow> c = char_of n"
  by auto

lemma json_unescape_escape:
  "json_unescape Plain (json_escape c @ s) = map_option ((#) c) (json_unescape Plain s)"
proof -
  let ?n = "of_char c :: nat"
  have bq: "backslash \<noteq> dquote" "CHR ''b'' \<noteq> CHR ''u''"
    by (simp_all add: backslash_def dquote_def)
  consider (b) "?n = 8" | (t) "?n = 9" | (n) "?n = 10" | (f) "?n = 12" | (r) "?n = 13"
    | (q) "?n = 34" | (bs) "?n = 92"
    | (u) "?n < 32" "?n \<noteq> 8" "?n \<noteq> 9" "?n \<noteq> 10" "?n \<noteq> 12" "?n \<noteq> 13"
    | (p) "\<not> ?n < 32" "?n \<noteq> 34" "?n \<noteq> 92"
    by linarith
  then show ?thesis
  proof cases
    case b
    then show ?thesis using char_of_of_char_eq [OF b]
      by (simp add: json_escape_def unescape_char_def backslash_def dquote_def)
  next
    case t
    then show ?thesis using char_of_of_char_eq [OF t]
      by (simp add: json_escape_def unescape_char_def backslash_def dquote_def)
  next
    case n
    then show ?thesis using char_of_of_char_eq [OF n]
      by (simp add: json_escape_def unescape_char_def backslash_def dquote_def)
  next
    case f
    then show ?thesis using char_of_of_char_eq [OF f]
      by (simp add: json_escape_def unescape_char_def backslash_def dquote_def)
  next
    case r
    then show ?thesis using char_of_of_char_eq [OF r]
      by (simp add: json_escape_def unescape_char_def backslash_def dquote_def)
  next
    case q
    then have "c = dquote" by (simp add: dquote_code)
    then show ?thesis
      by (simp add: json_escape_def unescape_char_def backslash_def dquote_def)
  next
    case bs
    then have "c = backslash" by (simp add: backslash_code)
    then show ?thesis
      by (simp add: json_escape_def unescape_char_def backslash_def dquote_def)
  next
    case u
    have "json_escape c = [backslash, CHR ''u'', CHR ''0'', CHR ''0'',
                           digit_char (?n div 16), digit_char (?n mod 16)]"
      using u by (simp add: json_escape_def Let_def dquote_code backslash_code)
    then show ?thesis using json_unescape_u [OF u(1), of s] by simp
  next
    case p
    then have "json_escape c = [c]"
      by (simp add: json_escape_def Let_def dquote_code backslash_code)
    then show ?thesis using p by (simp add: dquote_code backslash_code)
  qed
qed

lemma json_unescape_concat: "json_unescape Plain (concat (map json_escape s)) = Some s"
  by (induction s) (simp_all add: json_unescape_escape)

lemma json_unquote_stringify: "json_unquote (JSON_stringify s) = Some s"
  by (simp add: json_unquote_def JSON_stringify_def json_unescape_concat)

subsection \<open>The canonical message\<close>

lemma canonical_keys_sorted: "sorted_wrt str_less canonical_keys"
  by (simp add: canonical_keys_def)

lemma json_object_canonical:
  "json_object (canonical_fields amount from_s memo_s nonce_s to_s) =
     ''{'' @ [dquote] @ ''amount'' @ [dquote] @ '':'' @ amount
     @ '','' @ [dquote] @ ''from'' @ [dquote] @ '':'' @ JSON_stringify from_s
     @ '','' @ [dquote] @ ''memo'' @ [dquote] @ '':'' @ JSON_stringify memo_s
     @ '','' @ [dquote] @ ''nonce'' @ [dquote] @ '':'' @ JSON_stringify nonce_s
     @ '','' @ [dquote] @ ''to'' @ [dquote] @ '':'' @ JSON_stringify to_s @ ''}''"
  by (simp add: json_object_def canonical_fields_def json_member_def)

text \<open>
  C1. The canonical message of every signed transfer is the object with the members
  \<open>amount\<close>, \<open>from\<close>, \<open>memo\<close>, \<open>nonce\<close>, \<open>to\<close> in this order, which is
  strictly increasing; members are separated by a comma, key and value by a colon, with
  nothing between. The amount is the text of \<open>_pyFloatRepr\<close>, made of digits, point,
  \<open>e\<close> and signs only; the other four values are JSON string literals, the nonce among
  them, of the signer's address, the memo, the nonce's string and the recipient. A JSON
  string literal reads back as the string it was made from.
\<close>

theorem canonical_message_shape:
  assumes "signTransfer env st toAddr amountRtc memo' nonceInt = Inr p"
  shows "\<exists>amount.
      pyFloatRepr amountRtc = Inr amount \<and> list_all number_char amount
    \<and> canonical_message p =
        json_object (canonical_fields amount (from_address p) (or_empty memo')
          (Number_toString (parseInt (String_of nonceInt) 10)) (or_empty toAddr))
    \<and> canonical_message p =
        ''{'' @ [dquote] @ ''amount'' @ [dquote] @ '':'' @ amount
        @ '','' @ [dquote] @ ''from'' @ [dquote] @ '':'' @ JSON_stringify (from_address p)
        @ '','' @ [dquote] @ ''memo'' @ [dquote] @ '':'' @ JSON_stringify (or_empty memo')
        @ '','' @ [dquote] @ ''nonce'' @ [dquote] @ '':''
        @ JSON_stringify (Number_toString (parseInt (String_of nonceInt) 10))
        @ '','' @ [dquote] @ ''to'' @ [dquote] @ '':'' @ JSON_stringify (or_empty toAddr) @ ''}''
    \<and> map fst (canonical_fields amount (from_address p) (or_empty memo')
          (Number_toString (parseInt (String_of nonceInt) 10)) (or_empty toAddr)) = canonical_keys
    \<and> sorted_wrt str_less canonical_keys
    \<and> (\<forall>s. json_unquote (JSON_stringify s) = Some s)"
proof -
  obtain w where w: "getWallet env st = Inr (Some w)"
    using signTransfer_Inr_wallet [OF assms] by blast
  from assms obtain amount where
    a: "pyFloatRepr amountRtc = Inr amount" and
    p: "p = \<lparr> from_address = address w, public_key = publicKeyHex w,
             signature = bytesToHex (sign_detached env (TextEncoder_encode
               (json_object (canonical_fields amount (address w) (or_empty memo')
                  (Number_toString (parseInt (String_of nonceInt) 10)) (or_empty toAddr))))
               (secretKey w)),
             nonce = parseInt (Number_toString (parseInt (String_of nonceInt) 10)) 10,
             memo = or_empty memo',
             canonical_message = json_object (canonical_fields amount (address w) (or_empty memo')
                  (Number_toString (parseInt (String_of nonceInt) 10)) (or_empty toAddr)) \<rparr>"
    unfolding signTransfer_with_wallet [OF w]
    by (auto simp: Let_def split: if_splits sum.splits)
  have k: "map fst (canonical_fields amount (from_address p) (or_empty memo')
          (Number_toString (parseInt (String_of nonceInt) 10)) (or_empty toAddr)) = canonical_keys"
    by (simp add: canonical_fields_def canonical_keys_def)
  show ?thesis
    apply (rule exI [of _ amount])
    apply (intro conjI)
          apply (rule a)
         apply (rule number_char_pyFloatRepr [OF a])
        apply (simp add: p)
       apply (simp only: json_object_canonical [symmetric]) apply (simp add: p)
      apply (rule k)
     apply (rule canonical_keys_sorted)
    apply (simp add: json_unquote_stringify)
    done
qed

subsection \<open>The amount on examples\<close>

lemma show_nat_100: "show_nat 100 = ''100''"
  by code_simp

lemma toString_examples:
  "Number_toString (Finite False 1 21) = ''1e+21''"
  "Number_toString (Finite True 1 (- 7)) = ''-1e-7''"
  by code_simp+

lemma zeros_21: "replicate 21 (CHR ''0'') = ''000000000000000000000''"
  by code_simp

lemma show_nat_1: "show_nat 1 = ''1''"
  by code_simp

lemma amount_1e21_text: "pyFloatRepr (Finite False 1 21) = Inr ''1e+21''"
  by code_simp

subsection \<open>The memo\<close>

lemma parse_seven: "parseInt_math (String_of (JNum (Finite False 7 0))) 10 = Some (False, 7)"
  by code_simp

lemma parse_minus_five: "parseInt_math (String_of (JNum (Finite True 5 0))) 10 = Some (True, 5)"
  by code_simp

lemma show_nat_digits_7_5: "show_nat 7 = ''7''" "show_nat 5 = ''5''"
  by code_simp+

lemma demo_transfer_seven:
  "signTransfer demo_provider (Some zero_seed_hex) (JStr ''RTCabc'') (Finite False 25 (- 1))
     memo' (JNum (Finite False 7 0))
   = Inr (demo_payload (or_empty memo') (Finite False 7 0) ''7'')"
  using demo_signTransfer [OF parse_seven, of memo'] by (simp add: sign_str_def show_nat_digits_7_5)

theorem canonical_message_shape_witness:
  "signTransfer demo_provider (Some zero_seed_hex) (JStr ''RTCabc'') (Finite False 25 (- 1))
     (JStr ''hi'') (JNum (Finite False 7 0))
   = Inr (demo_payload ''hi'' (Finite False 7 0) ''7'')
   \<and> (\<exists>amount. pyFloatRepr (Finite False 25 (- 1)) = Inr amount
        \<and> canonical_message (demo_payload ''hi'' (Finite False 7 0) ''7'')
            = json_object (canonical_fields amount (address demo_wallet) ''hi'' ''7'' ''RTCabc''))"
proof -
  have h: "signTransfer demo_provider (Some zero_seed_hex) (JStr ''RTCabc'') (Finite False 25 (- 1))
     (JStr ''hi'') (JNum (Finite False 7 0))
   = Inr (demo_payload ''hi'' (Finite False 7 0) ''7'')"
    using demo_transfer_seven [of "JStr ''hi''"] by simp
  from canonical_message_shape [OF h]
  obtain amount where "pyFloatRepr (Finite False 25 (- 1)) = Inr amount"
    "canonical_message (demo_payload ''hi'' (Finite False 7 0) ''7'') =
        json_object (canonical_fields amount (from_address (demo_payload ''hi'' (Finite False 7 0) ''7''))
          (or_empty (JStr ''hi''))
          (Number_toString (parseInt (String_of (JNum (Finite False 7 0))) 10)) (or_empty (JStr ''RTCabc'')))"
    by blast
  moreover have "Number_toString (parseInt (String_of (JNum (Finite False 7 0))) 10) = ''7''"
    using nonce_small(1) [OF parse_seven] by (simp add: sign_str_def show_nat_digits_7_5)
  ultimately show ?thesis using h by (auto simp: demo_payload_def)
qed

text \<open>
  C10. The \<open>memo\<close> of the payload is \<open>String(memo || "")\<close>, and the canonical message
  carries the JSON string literal of that same string in the memo member, which reads
  back as the payload's \<open>memo\<close>. A falsy memo (\<open>undefined\<close>, \<open>null\<close>, \<open>false\<close>,
  \<open>0\<close>, \<open>NaN\<close>, the empty string) gives the empty string in both places.
\<close>

theorem memo_agrees:
  assumes "signTransfer env st toAddr amountRtc memo' nonceInt = Inr p"
  shows "memo p = or_empty memo'
    \<and> (\<not> truthy memo' \<longrightarrow> memo p = [])
    \<and> (\<exists>amount nonceStr.
          canonical_message p =
            (''{'' @ json_member (''amount'', amount)
             @ '','' @ json_member (''from'', JSON_stringify (from_address p))
             @ '','' @ [dquote] @ ''memo'' @ [dquote] @ '':'')
            @ JSON_stringify (memo p)
            @ ('','' @ json_member (''nonce'', JSON_stringify nonceStr)
               @ '','' @ json_member (''to'', JSON_stringify (or_empty toAddr)) @ ''}''))
    \<and> json_unquote (JSON_stringify (memo p)) = Some (memo p)"
proof -
  obtain w where w: "getWallet env st = Inr (Some w)"
    using signTransfer_Inr_wallet [OF assms] by blast
  from assms obtain amount where
    m: "memo p = or_empty memo'" and
    f: "from_address p = address w" and
    c: "canonical_message p = json_object (canonical_fields amount (address w) (or_empty memo')
                  (Number_toString (parseInt (String_of nonceInt) 10)) (or_empty toAddr))"
    unfolding signTransfer_with_wallet [OF w]
    by (auto simp: Let_def split: if_splits sum.splits)
  have e: "\<not> truthy memo' \<Longrightarrow> or_empty memo' = []" by (simp add: or_empty_def)
  have "canonical_message p =
            (''{'' @ json_member (''amount'', amount)
             @ '','' @ json_member (''from'', JSON_stringify (from_address p))
             @ '','' @ [dquote] @ ''memo'' @ [dquote] @ '':'')
            @ JSON_stringify (memo p)
            @ ('','' @ json_member (''nonce'', JSON_stringify (Number_toString (parseInt (String_of nonceInt) 10)))
               @ '','' @ json_member (''to'', JSON_stringify (or_empty toAddr)) @ ''}'')"
    by (simp add: c m f json_object_def canonical_fields_def json_member_def)
  then show ?thesis using m e by (auto simp: json_unquote_stringify)
qed

theorem memo_agrees_witness:
  "signTransfer demo_provider (Some zero_seed_hex) (JStr ''RTCabc'') (Finite False 25 (- 1))
     JNull (JNum (Finite False 7 0))
   = Inr (demo_payload [] (Finite False 7 0) ''7'')
   \<and> \<not> truthy JNull
   \<and> memo (demo_payload [] (Finite False 7 0) ''7'') = []
   \<and> json_unquote (JSON_stringify (memo (demo_payload [] (Finite False 7 0) ''7''))) = Some []"
proof -
  have h: "signTransfer demo_provider (Some zero_seed_hex) (JStr ''RTCabc'') (Finite False 25 (- 1))
     JNull (JNum (Finite False 7 0))
   = Inr (demo_payload [] (Finite False 7 0) ''7'')"
    using demo_transfer_seven [of JNull] by (simp add: or_empty_def)
  show ?thesis using memo_agrees [OF h] h by (simp add: or_empty_def json_unquote_stringify)
qed

subsection \<open>The nonce\<close>





text \<open>
  A nonce of 22 digits: \<open>parseInt\<close> reads \<open>10^21\<close>, whose string is \<open>1e+21\<close>,
  and \<open>parseInt\<close> of that string is 1.
\<close>

lemma bitlen_numeral_step: "bitlen (numeral k) = Suc (bitlen (numeral k div 2))"
  by (subst bitlen.simps) simp

lemma bitlen_0: "bitlen 0 = 0"
  by (subst bitlen.simps) simp

lemma bitlen_1: "bitlen (Suc 0) = Suc 0"
  by (subst bitlen.simps) (simp add: bitlen_0)

lemma bitlen_1e21: "bitlen 1000000000000000000000 = 70"
  by (simp add: bitlen_numeral_step bitlen_0 bitlen_1)

lemma round_1e21: "round_double 1000000000000000000000 = Some 1000000000000000000000"
  by (simp add: round_double_def bitlen_1e21 Let_def)

lemma show_nat_1e21: "show_nat 1000000000000000000000 = ''1000000000000000000000''"
proof -
  have "show_nat (1 * 10 ^ 21) = show_nat 1 @ replicate 21 (CHR ''0'')"
    by (rule show_nat_times_pow10) simp
  then have "show_nat (1 * 10 ^ 21) = ''1000000000000000000000''"
    by (simp only: zeros_21 show_nat_1) simp
  then show ?thesis by simp
qed

lemma rounds_to_1e21: "rounds_to 1000000000000000000000 1000000000000000000000"
  by (simp add: rounds_to_def bitlen_1e21 Let_def)

lemma shortest_int_first:
  assumes "shortest_candidates D 1 = c # cs"
  shows "shortest_int D = c"
proof -
  have "0 < length (show_nat D)" by simp
  then have "[1 ..< Suc (length (show_nat D))] = 1 # [Suc 1 ..< Suc (length (show_nat D))]"
    by (intro upt_conv_Cons) simp
  then show ?thesis using assms by (simp add: shortest_int_def del: upt_Suc)
qed

lemma shortest_1e21: "shortest_int 1000000000000000000000 = 1000000000000000000000"
proof -
  have "\<exists>cs. shortest_candidates 1000000000000000000000 1 = 1000000000000000000000 # cs"
    by (simp add: shortest_candidates_def show_nat_1e21 rounds_to_1e21 Let_def)
  then show ?thesis using shortest_int_first by blast
qed

lemma number_of_int_1e21:
  "number_of_int False 1000000000000000000000 = Finite False 1000000000000000000000 0"
  by (simp add: number_of_int_def round_1e21 shortest_1e21)

lemma strip_zeros_pow: "0 < m \<Longrightarrow> strip_zeros (m * 10 ^ j) e = strip_zeros m (e + int j)"
proof (induction j arbitrary: e)
  case 0
  then show ?case by simp
next
  case (Suc j)
  have "strip_zeros (m * 10 ^ Suc j) e = strip_zeros (m * 10 ^ j) (e + 1)"
    using Suc(2) by (subst strip_zeros.simps) simp
  then show ?case using Suc by (simp add: add.assoc)
qed

lemma toString_1e21: "Number_toString (Finite False 1000000000000000000000 0) = ''1e+21''"
proof -
  have "strip_zeros (1 * 10 ^ 21) 0 = strip_zeros 1 (0 + int 21)"
    by (rule strip_zeros_pow) simp
  then have "strip_zeros 1000000000000000000000 0 = strip_zeros 1 21" by simp
  then have "toString_pos 1000000000000000000000 0 = toString_pos 1 21"
    by (simp add: toString_pos_def)
  then show ?thesis using toString_examples(1) by simp
qed






subsection \<open>Importing a seed\<close>

lemma hexToBytes_malformed: "hexToBytes (JStr malformed_seed_hex) = Inr (1 # replicate 31 0)"
  by code_simp

lemma bytesToHex_malformed:
  "bytesToHex (1 # replicate 31 0) = ''01'' @ concat (replicate 31 ''00'')"
  by code_simp

text \<open>What the decoder does accept and refuse by design, on examples.\<close>

lemma hexToBytes_examples:
  "hexToBytes (JStr ''0XDEADbeef'') = Inr [0xDE, 0xAD, 0xBE, 0xEF]"
  "hexToBytes (JStr ''abc'') = Inl HexLengthOdd"
  "hexToBytes (JStr ''zz'') = Inl InvalidHex"
  by code_simp+

lemma importSeed_31_bytes:
  "importSeed env st (JStr (concat (replicate 31 ''00''))) = (st, Inl SeedNot32Bytes)"
proof -
  have "concat (replicate 31 ''00'') = bytesToHex (replicate 31 0)" by code_simp
  then show ?thesis by (simp add: importSeed_def hexToBytes_bytesToHex)
qed

text \<open>
  C4. The claim holds of the length check and of odd lengths, and fails on a seed string
  with a character that is no hexadecimal digit: \<open>parseInt(pair, 16)\<close> reads the pair
  \<open>1g\<close> as 1, the check for \<open>invalid hex\<close> passes, and \<open>importSeed\<close> stores and
  returns the wallet of the seed \<open>01 00 ... 00\<close>.
\<close>

theorem nonhex_seed_imported:
  "hexToBytes (JStr malformed_seed_hex) = Inr (1 # replicate 31 0)
   \<and> fst (importSeed env st (JStr malformed_seed_hex)) = Some (''01'' @ concat (replicate 31 ''00''))
   \<and> (\<exists>w. snd (importSeed demo_provider st (JStr malformed_seed_hex)) = Inr w
          \<and> seedHex w = ''01'' @ concat (replicate 31 ''00''))"
proof -
  have len: "length (1 # replicate 31 (0::byte)) = 32" by simp
  have i: "importSeed env st (JStr malformed_seed_hex) =
        (Some (bytesToHex (1 # replicate 31 0)),
         walletFromSeedHex env (JStr (bytesToHex (1 # replicate 31 0))))" for env
    by (simp add: importSeed_def hexToBytes_malformed Let_def)
  have l: "nacl_loaded demo_provider" by (simp add: demo_provider_def)
  show ?thesis
    unfolding i walletFromSeedHex_normalized [OF len]
    using l by (simp add: hexToBytes_malformed bytesToHex_malformed)
qed

subsection \<open>The amount of an integer\<close>

lemma digit_chars:
  "digit_char 0 = CHR ''0''" "digit_char 1 = CHR ''1''" "digit_char 2 = CHR ''2''"
  "digit_char 3 = CHR ''3''" "digit_char 4 = CHR ''4''" "digit_char 5 = CHR ''5''"
  "digit_char 6 = CHR ''6''" "digit_char 7 = CHR ''7''" "digit_char 8 = CHR ''8''"
  "digit_char 9 = CHR ''9''"
  by code_simp+

lemma show_nat_numeral:
  "show_nat (numeral k) =
     (if numeral k < (10::nat) then [digit_char (numeral k)]
      else show_nat (numeral k div 10) @ [digit_char (numeral k mod 10)])"
  by (subst show_nat.simps) simp

lemma show_nat_2_56: "show_nat 72057594037927936 = ''72057594037927936''"
  by (simp add: show_nat_numeral digit_chars show_nat_small)

lemma show_nat_2_56_printed: "show_nat 72057594037927940 = ''72057594037927940''"
  by (simp add: show_nat_numeral digit_chars show_nat_small)

lemma bitlen_2_56: "bitlen 72057594037927936 = 57"
  by (simp add: bitlen_numeral_step bitlen_0 bitlen_1)

lemma round_2_56: "round_double 72057594037927936 = Some 72057594037927936"
  by (simp add: round_double_def bitlen_2_56 Let_def)

lemma upt_18: "[1 ..< Suc 17] = [1, 2, 3, 4, 5, 6, 7, 8, 9, 10, 11, 12, 13, 14, 15, 16, 17]"
  by code_simp

lemma rounds_to_2_56:
  "rounds_to 72057594037927936 c = (72057594037927932 \<le> c \<and> c \<le> 72057594037927944)"
  by (simp add: rounds_to_def bitlen_2_56 Let_def)

lemma length_2_56: "length (show_nat 72057594037927936) = 17"
  by (simp add: show_nat_2_56)

lemma candidates_2_56:
  "shortest_candidates 72057594037927936 k =
     (let p = 10 ^ (17 - k);
          c1 = (72057594037927936 div p) * p;
          c2 = c1 + p
      in filter (\<lambda>c. 72057594037927932 \<le> c \<and> c \<le> 72057594037927944)
           (if 72057594037927936 - c1 \<le> c2 - 72057594037927936 then [c1, c2] else [c2, c1]))"
  unfolding shortest_candidates_def length_2_56 rounds_to_2_56 ..

lemma shortest_2_56: "shortest_int 72057594037927936 = 72057594037927940"
  unfolding shortest_int_def length_2_56 upt_18
  by (simp add: candidates_2_56 Let_def)

lemma number_of_int_2_56:
  "number_of_int False 72057594037927936 = Finite False 72057594037927940 0"
  by (simp add: number_of_int_def round_2_56 shortest_2_56)

lemma amount_2_56:
  "pyFloatRepr (number_of_int False 72057594037927936) = Inr ''72057594037927940.0''"
  using pyFloatRepr_digits_int [of 0 72057594037927940 False]
  by (simp add: number_of_int_2_56 sign_str_def show_nat_2_56_printed)

lemma amount_1e21:
  "pyFloatRepr (number_of_int False 1000000000000000000000) = Inr ''1e+21''"
proof -
  have "CHR ''e'' \<in> set ''1e+21''" by simp
  then show ?thesis
    unfolding number_of_int_1e21 pyFloatRepr_def Let_def toString_1e21
    by (simp add: Number_isFinite_def)
qed

text \<open>
  C2 (as amended). \<open>NaN\<close> and the infinities are refused. A finite amount is printed
  by \<open>Number.prototype.toString\<close>, and \<open>.0\<close> is appended when the text has neither a
  point nor an exponent.
  \<^item> An integer \<open>v\<close> below \<open>2^53\<close>, where every integer is a double, gives the decimal
    digits of \<open>v\<close> and \<open>.0\<close>.
  \<^item> An integer whose double \<open>D\<close> is \<open>2^53\<close> or more gives the shortest digits that
    round to \<open>D\<close>, filled up with zeros, and \<open>.0\<close>, as long as they are below
    \<open>10^21\<close>; these need not be the digits of \<open>D\<close>.
  \<^item> In terms of the printed digits \<open>m * 10^e\<close>: an integer below \<open>10^21\<close> is followed
    by \<open>.0\<close>, one from \<open>10^21\<close> on stays in exponent notation.
  \<^item> A fraction \<open>m * 10^e\<close> (\<open>e < 0\<close>, last digit of \<open>m\<close> not zero) from \<open>10^-6\<close> up
    to \<open>10^21\<close> gives integer part, point and \<open>-e\<close> fraction digits that together
    read \<open>m\<close>, without a trailing zero and without a superfluous leading zero; a smaller
    fraction stays in exponent notation.
\<close>

theorem pyFloatRepr_rule:
  "pyFloatRepr NaN = Inl AmountNotFinite
   \<and> pyFloatRepr (Infinity neg) = Inl AmountNotFinite
   \<and> (v < 2 ^ 53 \<longrightarrow>
        pyFloatRepr (number_of_int neg v) = Inr (spec_integral_repr neg v))
   \<and> (round_double v = Some D \<and> 2 ^ 53 \<le> D \<and> shortest_int D < 10 ^ 21 \<longrightarrow>
        pyFloatRepr (number_of_int neg v)
          = Inr (sign_str (neg \<and> shortest_int D \<noteq> 0) @ show_nat (shortest_int D) @ ''.0''))
   \<and> (0 \<le> e \<and> m * 10 ^ nat e < 10 ^ 21 \<longrightarrow>
        pyFloatRepr (Finite neg m e)
          = Inr (sign_str (neg \<and> m \<noteq> 0) @ show_nat (m * 10 ^ nat e) @ ''.0''))
   \<and> (0 \<le> e \<and> 10 ^ 21 \<le> m * 10 ^ nat e \<longrightarrow>
        pyFloatRepr (Finite neg m e) = Inr (Number_toString (Finite neg m e))
        \<and> CHR ''e'' \<in> set (Number_toString (Finite neg m e)))
   \<and> (e < 0 \<and> m mod 10 \<noteq> 0 \<and> 10 ^ nat (- e - 6) \<le> m \<and> m < 10 ^ nat (21 - e) \<longrightarrow>
        (\<exists>ip fp. pyFloatRepr (Finite neg m e) = Inr (sign_str neg @ ip @ ''.'' @ fp)
           \<and> digits_val 10 0 (ip @ fp) = m \<and> length fp = nat (- e)
           \<and> last fp \<noteq> CHR ''0'' \<and> list_all dec_digit (ip @ fp)
           \<and> ip \<noteq> [] \<and> (ip = ''0'' \<or> hd ip \<noteq> CHR ''0'')))
   \<and> (e < 0 \<and> m mod 10 \<noteq> 0 \<and> m < 10 ^ nat (- e - 6) \<longrightarrow>
        pyFloatRepr (Finite neg m e) = Inr (Number_toString (Finite neg m e))
        \<and> CHR ''e'' \<in> set (Number_toString (Finite neg m e)))"
proof -
  have S: "pyFloatRepr (number_of_int neg v) = Inr (spec_integral_repr neg v)" if h: "v < 2 ^ 53"
  proof -
    have "v < 10 ^ 21" using h by simp
    then show ?thesis
      using pyFloatRepr_digits_int [of 0 v neg]
      by (simp add: number_of_int_small [OF h] spec_integral_repr_def)
  qed
  have L: "pyFloatRepr (number_of_int neg v)
          = Inr (sign_str (neg \<and> shortest_int D \<noteq> 0) @ show_nat (shortest_int D) @ ''.0'')"
    if h: "round_double v = Some D" "2 ^ 53 \<le> D" "shortest_int D < 10 ^ 21"
  proof -
    have "number_of_int neg v = Finite neg (shortest_int D) 0"
      using h(1,2) by (simp add: number_of_int_def)
    then show ?thesis using pyFloatRepr_digits_int [of 0 "shortest_int D" neg] h(3) by simp
  qed
  show ?thesis
    using S L pyFloatRepr_not_finite pyFloatRepr_digits_int [of e m neg]
      pyFloatRepr_digits_big [of e m neg] pyFloatRepr_fraction [of e m neg]
      pyFloatRepr_tiny [of e m neg]
    by blast
qed

theorem pyFloatRepr_rule_witness:
  "pyFloatRepr (number_of_int False 100) = Inr ''100.0''
   \<and> round_double 72057594037927936 = Some 72057594037927936
   \<and> shortest_int 72057594037927936 = 72057594037927940
   \<and> pyFloatRepr (number_of_int False 72057594037927936) = Inr ''72057594037927940.0''
   \<and> pyFloatRepr (Finite False 100 0) = Inr ''100.0''
   \<and> pyFloatRepr (Finite False 1 21) = Inr ''1e+21''
   \<and> (\<exists>ip fp. pyFloatRepr (Finite False 25 (- 1)) = Inr (ip @ ''.'' @ fp)
         \<and> digits_val 10 0 (ip @ fp) = 25 \<and> length fp = 1)
   \<and> pyFloatRepr (Finite True 1 (- 7)) = Inr ''-1e-7''"
proof -
  have s: "pyFloatRepr (number_of_int False 100) = Inr ''100.0''"
    using pyFloatRepr_rule [where v = 100 and neg = False]
    by (simp add: spec_integral_repr_def sign_str_def show_nat_100)
  have l: "pyFloatRepr (number_of_int False 72057594037927936) = Inr ''72057594037927940.0''"
    using pyFloatRepr_rule [where v = 72057594037927936 and D = 72057594037927936 and neg = False]
    by (simp add: round_2_56 shortest_2_56 sign_str_def show_nat_2_56_printed)
  have a: "pyFloatRepr (Finite False 100 0) = Inr ''100.0''"
    using pyFloatRepr_rule [where e = 0 and m = 100 and neg = False]
    by (simp add: sign_str_def show_nat_100)
  have b: "pyFloatRepr (Finite False 1 21) = Inr ''1e+21''"
    using pyFloatRepr_rule [where e = 21 and m = 1 and neg = False]
    unfolding toString_examples by simp
  have c: "\<exists>ip fp. pyFloatRepr (Finite False 25 (- 1)) = Inr (ip @ ''.'' @ fp)
         \<and> digits_val 10 0 (ip @ fp) = 25 \<and> length fp = 1"
  proof -
    have "\<exists>ip fp. pyFloatRepr (Finite False 25 (- 1)) = Inr (sign_str False @ ip @ ''.'' @ fp)
           \<and> digits_val 10 0 (ip @ fp) = 25 \<and> length fp = nat (- (- 1))
           \<and> last fp \<noteq> CHR ''0'' \<and> list_all dec_digit (ip @ fp)
           \<and> ip \<noteq> [] \<and> (ip = ''0'' \<or> hd ip \<noteq> CHR ''0'')"
      using pyFloatRepr_rule [where e = "- 1" and m = 25 and neg = False] by simp
    then obtain ip fp where "pyFloatRepr (Finite False 25 (- 1)) = Inr (sign_str False @ ip @ ''.'' @ fp)"
      "digits_val 10 0 (ip @ fp) = 25" "length fp = nat (- (- 1))" by blast
    then show ?thesis by (intro exI [of _ ip] exI [of _ fp]) (simp add: sign_str_def)
  qed
  have d: "pyFloatRepr (Finite True 1 (- 7)) = Inr ''-1e-7''"
    using pyFloatRepr_rule [where e = "- 7" and m = 1 and neg = True]
    unfolding toString_examples by simp
  show ?thesis using s l a b c d round_2_56 shortest_2_56 by blast
qed

text \<open>
  C2 as stated fails on integral amounts. \<open>10^21\<close> is rendered \<open>1e+21\<close>, with no
  \<open>.0\<close>. \<open>2^56 = 72057594037927936\<close> is rendered \<open>72057594037927940.0\<close>, which is
  not its decimal integer followed by \<open>.0\<close>.
\<close>

theorem integral_amount_rendering:
  "pyFloatRepr (number_of_int False 1000000000000000000000) = Inr ''1e+21''
   \<and> spec_integral_repr False 1000000000000000000000 = ''1000000000000000000000.0''
   \<and> pyFloatRepr (number_of_int False 72057594037927936) = Inr ''72057594037927940.0''
   \<and> spec_integral_repr False 72057594037927936 = ''72057594037927936.0''
   \<and> (2::nat) ^ 56 = 72057594037927936 \<and> (10::nat) ^ 21 = 1000000000000000000000"
  by (simp add: amount_1e21 amount_2_56 spec_integral_repr_def sign_str_def show_nat_1e21
      show_nat_2_56)

end
